theory Spec2Isabelle
  imports Complex_Main "HOL-Library.Word" "HOL-Library.Log_Nat"
begin

section \<open>Values\<close>

text \<open>
  The program works on numpy float64 arrays. A float is a binary64 value: a finite rational
  that binary64 represents (\<open>Fin 0\<close> is the positive zero), the negative zero, an
  infinity or NaN. Every operation rounds its exact result to the nearest representable value,
  ties to even, as IEEE 754 prescribes; nothing is said about which NaN is meant.
\<close>

datatype pyfloat = Fin rat | NZero | PInf | NInf | NaN

text \<open>The integer power of two \<open>2 ^ e\<close>, and \<open>\<lfloor>log\<^sub>2 a\<rfloor>\<close> for a positive rational \<open>a\<close>.\<close>

definition pow2 :: "int \<Rightarrow> rat" where
  "pow2 e = (if 0 \<le> e then 2 ^ nat e else 1 / 2 ^ nat (- e))"

definition floor_log2 :: "rat \<Rightarrow> int" where
  "floor_log2 a =
     (if 1 \<le> a then bitlen \<lfloor>a\<rfloor> - 1 else - bitlen (\<lceil>1 / a\<rceil> - 1))"

definition round_half_even :: "rat \<Rightarrow> int" where
  "round_half_even x =
     (let f = \<lfloor>x\<rfloor>; r = x - of_int f
      in if r < 1 / 2 then f else if 1 / 2 < r then f + 1 else if even f then f else f + 1)"

text \<open>
  Rounding of a positive rational to binary64: the result is \<open>m * 2 ^ e\<close> with a
  significand \<open>m\<close> of at most 53 bits and \<open>e\<close> at least \<open>-1074\<close> (below \<open>2 ^ -1022\<close>
  the values are subnormal, with a fixed spacing of \<open>2 ^ -1074\<close>). \<open>None\<close> is overflow:
  the rounded value would be \<open>2 ^ 1024\<close> or more.
\<close>

definition round64 :: "rat \<Rightarrow> rat option" where
  "round64 a =
     (let e = max (floor_log2 a - 52) (- 1074);
          m = round_half_even (a / pow2 e)
      in if 1025 \<le> bitlen m + e then None else Some (of_int m * pow2 e))"

definition signed_inf :: "bool \<Rightarrow> pyfloat" where
  "signed_inf neg = (if neg then NInf else PInf)"

definition signed_zero :: "bool \<Rightarrow> pyfloat" where
  "signed_zero neg = (if neg then NZero else Fin 0)"

text \<open>The float with the given sign that is nearest to the exact magnitude \<open>a \<ge> 0\<close>.\<close>

definition mk_float :: "bool \<Rightarrow> rat \<Rightarrow> pyfloat" where
  "mk_float neg a =
     (if a = 0 then signed_zero neg
      else (case round64 a of
              None \<Rightarrow> signed_inf neg
            | Some r \<Rightarrow> if r = 0 then signed_zero neg else Fin (if neg then - r else r)))"

fun is_neg :: "pyfloat \<Rightarrow> bool" where
  "is_neg (Fin q) = (q < 0)"
| "is_neg NZero = True"
| "is_neg PInf = False"
| "is_neg NInf = True"
| "is_neg NaN = False"

fun mag :: "pyfloat \<Rightarrow> rat" where
  "mag (Fin q) = \<bar>q\<bar>"
| "mag x = 0"

definition is_zero :: "pyfloat \<Rightarrow> bool" where
  "is_zero x = (x = Fin 0 \<or> x = NZero)"

definition is_inf :: "pyfloat \<Rightarrow> bool" where
  "is_inf x = (x = PInf \<or> x = NInf)"

text \<open>
  Elementwise float64 multiplication and division as numpy performs them: a division by zero
  gives an infinity or NaN and raises nothing.
\<close>

definition fmul :: "pyfloat \<Rightarrow> pyfloat \<Rightarrow> pyfloat" where
  "fmul x y =
     (if x = NaN \<or> y = NaN then NaN
      else if (is_inf x \<and> is_zero y) \<or> (is_zero x \<and> is_inf y) then NaN
      else if is_inf x \<or> is_inf y then signed_inf (is_neg x \<noteq> is_neg y)
      else mk_float (is_neg x \<noteq> is_neg y) (mag x * mag y))"

definition fdiv :: "pyfloat \<Rightarrow> pyfloat \<Rightarrow> pyfloat" where
  "fdiv x y =
     (if x = NaN \<or> y = NaN then NaN
      else if (is_inf x \<and> is_inf y) \<or> (is_zero x \<and> is_zero y) then NaN
      else if is_inf x \<or> is_zero y then signed_inf (is_neg x \<noteq> is_neg y)
      else if is_inf y then signed_zero (is_neg x \<noteq> is_neg y)
      else mk_float (is_neg x \<noteq> is_neg y) (mag x / mag y))"

text \<open>The conversion of an integer to float64.\<close>

definition fl_of_int :: "int \<Rightarrow> pyfloat" where
  "fl_of_int i = mk_float (i < 0) (of_int \<bar>i\<bar>)"

text \<open>Order on floats: the two zeros are equal and every comparison with NaN is false.\<close>

fun fless :: "pyfloat \<Rightarrow> pyfloat \<Rightarrow> bool" where
  "fless NaN y = False"
| "fless x NaN = False"
| "fless PInf y = False"
| "fless x NInf = False"
| "fless NInf y = True"
| "fless x PInf = True"
| "fless x y = ((if is_neg x then - mag x else mag x) < (if is_neg y then - mag y else mag y))"

section \<open>Errors\<close>

text \<open>
  Every exception the function can raise, named after the Python exception class, or after
  the specification's error name where the source raises a bare \<open>Exception\<close> or a numpy
  call fails.
\<close>

datatype error =
    AlreadyProcessed         \<comment> \<open>line 34: an output file exists\<close>
  | FileNotFoundError        \<comment> \<open>archive, form_dock00.xml or the sample file is missing\<close>
  | ReadError                \<comment> \<open>line 41: the file is not an archive\<close>
  | AttributeError           \<comment> \<open>line 56: a signal has no plugin child\<close>
  | IndexError               \<comment> \<open>lines 70, 92: index out of range\<close>
  | TypeError                \<comment> \<open>lines 70, 82, 85: \<open>float(None)\<close>, \<open>int(None)\<close>, join with None\<close>
  | ValueError               \<comment> \<open>lines 70, 82: text that is not a number\<close>
  | ZeroDivisionError        \<comment> \<open>line 70: fsample is zero\<close>
  | UnboundLocalError        \<comment> \<open>line 73: signal_path was never assigned\<close>
  | FieldCoercionError       \<comment> \<open>line 79: \<open>np.array(..., dtype=t)\<close> fails\<close>
  | BufferSizeError          \<comment> \<open>line 87: odd number of bytes\<close>
  | DecodeShapeMismatch      \<comment> \<open>line 91: \<open>np.reshape\<close> fails\<close>
  | UnrecognizedUnit         \<comment> \<open>line 101\<close>
  | NegativePowerError       \<comment> \<open>line 105: \<open>2 ** k\<close> with a negative int64 \<open>k\<close>\<close>

section \<open>Library conversions\<close>

text \<open>
  The conversions from text to numbers are library code (Python's \<open>float\<close> and
  \<open>int\<close>, numpy's casts from str to float64 and int64). They are parameters of the model:
  \<open>None\<close> is the text the conversion rejects.
\<close>

record lib =
  py_float :: "string \<Rightarrow> pyfloat option"
  py_int :: "string \<Rightarrow> int option"
  np_float :: "string \<Rightarrow> pyfloat option"
  np_int :: "string \<Rightarrow> 64 word option"

section \<open>The metadata tree\<close>

datatype element = Element (tag: string) (text_of: "string option") (children: "element list")

text \<open>\<open>root.iter(t)\<close>: the element itself and all its descendants with tag \<open>t\<close>, in document order.\<close>

fun iter_elem :: "string \<Rightarrow> element \<Rightarrow> element list" where
  "iter_elem t (Element g x cs) =
     (if g = t then [Element g x cs] else []) @ concat (map (iter_elem t) cs)"

text \<open>\<open>e.find(key)\<close>: the first direct child with tag \<open>key\<close>.\<close>

definition find_elem :: "string \<Rightarrow> element \<Rightarrow> element option" where
  "find_elem key e = List.find (\<lambda>c. tag c = key) (children e)"

text \<open>Lines 61 to 63: the text of the child, or None when there is no such child.\<close>

definition field_text :: "string \<Rightarrow> element \<Rightarrow> string option" where
  "field_text key e = (case find_elem key e of None \<Rightarrow> None | Some v \<Rightarrow> text_of v)"

section \<open>Reading the headers (lines 49 to 70)\<close>

record headers =
  track_index :: "string option list"
  description :: "string option list"
  unity_of_measurement :: "string option list"
  power_supply :: "int list"
  fsample :: "string option list"
  ad_bits :: "string option list"
  signal_gain :: "string option list"
  low_pass_filter :: "string option list"
  high_pass_filter :: "string option list"

definition empty_headers :: headers where
  "empty_headers = \<lparr>track_index = [], description = [], unity_of_measurement = [],
     power_supply = [], fsample = [], ad_bits = [], signal_gain = [],
     low_pass_filter = [], high_pass_filter = []\<rparr>"

text \<open>Lines 59 to 64: one entry is appended to every list.\<close>

definition append_signal :: "element \<Rightarrow> headers \<Rightarrow> headers" where
  "append_signal s h =
     \<lparr>track_index = track_index h @ [field_text ''track_index'' s],
      description = description h @ [field_text ''description'' s],
      unity_of_measurement = unity_of_measurement h @ [field_text ''unity_of_measurement'' s],
      power_supply = power_supply h @ [5],
      fsample = fsample h @ [field_text ''fsample'' s],
      ad_bits = ad_bits h @ [field_text ''ad_bits'' s],
      signal_gain = signal_gain h @ [field_text ''signal_gain'' s],
      low_pass_filter = low_pass_filter h @ [field_text ''low_pass_filter'' s],
      high_pass_filter = high_pass_filter h @ [field_text ''high_pass_filter'' s]\<rparr>"

text \<open>Line 70: \<open>1 / float(v)\<close> on a Python float.\<close>

definition timestep_of :: "lib \<Rightarrow> string option \<Rightarrow> error + pyfloat" where
  "timestep_of L v =
     (case v of
        None \<Rightarrow> Inl TypeError
      | Some s \<Rightarrow>
          (case py_float L s of
             None \<Rightarrow> Inl ValueError
           | Some f \<Rightarrow> if is_zero f then Inl ZeroDivisionError else Inr (fdiv (Fin 1) f)))"

text \<open>
  The state of the loop. \<open>common\<close> is None as long as \<open>signal_path\<close>,
  \<open>track_totalnumber\<close> and \<open>timestep\<close> are unassigned.
\<close>

record pstate =
  n_signals :: nat
  hdrs :: headers
  common :: "(element option \<times> element option \<times> pyfloat) option"

definition init_state :: pstate where
  "init_state = \<lparr>n_signals = 0, hdrs = empty_headers, common = None\<rparr>"

fun read_headers :: "lib \<Rightarrow> element list \<Rightarrow> pstate \<Rightarrow> error + pstate" where
  "read_headers L [] st = Inr st"
| "read_headers L (s # ss) st =
     (case find_elem ''plugin'' s of
        None \<Rightarrow> Inl AttributeError
      | Some p \<Rightarrow>
          if text_of p = Some ''LoaderOTComm'' then
            (let st1 = st\<lparr>n_signals := n_signals st + 1, hdrs := append_signal s (hdrs st)\<rparr>
             in if n_signals st1 = 1 then
                  (case fsample (hdrs st1) of
                     [] \<Rightarrow> Inl IndexError
                   | v # vs \<Rightarrow>
                       (case timestep_of L v of
                          Inl e \<Rightarrow> Inl e
                        | Inr ts \<Rightarrow>
                            read_headers L ss
                              (st1\<lparr>common := Some (find_elem ''signal_path'' s,
                                                    find_elem ''track_totalnumber'' s, ts)\<rparr>)))
                else read_headers L ss st1)
          else read_headers L ss st)"

section \<open>Numeric coercion (lines 75 to 79)\<close>

text \<open>The dictionary after line 79: numpy arrays for the numeric fields.\<close>

record header_doc =
  track_index_arr :: "64 word list"
  description_arr :: "string option list"
  unity_of_measurement_arr :: "string option list"
  power_supply_arr :: "pyfloat list"
  fsample_arr :: "pyfloat list"
  ad_bits_arr :: "64 word list"
  signal_gain_arr :: "pyfloat list"
  low_pass_filter_arr :: "pyfloat list"
  high_pass_filter_arr :: "pyfloat list"

text \<open>\<open>np.array(vs, dtype=int)\<close>: None and text that is not an int64 are rejected.\<close>

fun to_int_array :: "lib \<Rightarrow> string option list \<Rightarrow> error + 64 word list" where
  "to_int_array L [] = Inr []"
| "to_int_array L (v # vs) =
     (case v of
        None \<Rightarrow> Inl FieldCoercionError
      | Some s \<Rightarrow>
          (case np_int L s of
             None \<Rightarrow> Inl FieldCoercionError
           | Some w \<Rightarrow>
               (case to_int_array L vs of Inl e \<Rightarrow> Inl e | Inr ws \<Rightarrow> Inr (w # ws))))"

text \<open>\<open>np.array(vs, dtype=float)\<close>: numpy stores None as NaN; text that is not a float is rejected.\<close>

fun to_float_array :: "lib \<Rightarrow> string option list \<Rightarrow> error + pyfloat list" where
  "to_float_array L [] = Inr []"
| "to_float_array L (v # vs) =
     (case (case v of None \<Rightarrow> Some NaN | Some s \<Rightarrow> np_float L s) of
        None \<Rightarrow> Inl FieldCoercionError
      | Some x \<Rightarrow>
          (case to_float_array L vs of Inl e \<Rightarrow> Inl e | Inr xs \<Rightarrow> Inr (x # xs)))"

definition coerce :: "lib \<Rightarrow> headers \<Rightarrow> error + header_doc" where
  "coerce L h =
     (case to_int_array L (track_index h) of Inl e \<Rightarrow> Inl e | Inr ti \<Rightarrow>
      (case to_float_array L (fsample h) of Inl e \<Rightarrow> Inl e | Inr fs \<Rightarrow>
       (case to_int_array L (ad_bits h) of Inl e \<Rightarrow> Inl e | Inr ab \<Rightarrow>
        (case to_float_array L (signal_gain h) of Inl e \<Rightarrow> Inl e | Inr sg \<Rightarrow>
         (case to_float_array L (low_pass_filter h) of Inl e \<Rightarrow> Inl e | Inr lp \<Rightarrow>
          (case to_float_array L (high_pass_filter h) of Inl e \<Rightarrow> Inl e | Inr hp \<Rightarrow>
             Inr \<lparr>track_index_arr = ti, description_arr = description h,
                  unity_of_measurement_arr = unity_of_measurement h,
                  power_supply_arr = map fl_of_int (power_supply h),
                  fsample_arr = fs, ad_bits_arr = ab, signal_gain_arr = sg,
                  low_pass_filter_arr = lp, high_pass_filter_arr = hp\<rparr>))))))"

section \<open>Decoding the samples (lines 85 to 92)\<close>

text \<open>\<open>np.frombuffer(data, dtype=np.int16)\<close> on a little-endian machine.\<close>

fun frombuffer :: "8 word list \<Rightarrow> error + 16 word list" where
  "frombuffer [] = Inr []"
| "frombuffer [b] = Inl BufferSizeError"
| "frombuffer (lo # hi # bs) =
     (case frombuffer bs of
        Inl e \<Rightarrow> Inl e
      | Inr ws \<Rightarrow> Inr ((ucast hi * 256 + ucast lo) # ws))"

text \<open>\<open>astype(float)\<close> of a signed 16-bit sample.\<close>

definition astype_float :: "16 word \<Rightarrow> pyfloat" where
  "astype_float w = fl_of_int (sint w)"

type_synonym matrix = "pyfloat list list"

text \<open>The rows of a flat sequence read in row-major order with \<open>n\<close> columns.\<close>

definition rows_of :: "nat \<Rightarrow> 'a list \<Rightarrow> 'a list list" where
  "rows_of n xs = map (\<lambda>r. take n (drop (r * n) xs)) [0..<length xs div n]"

text \<open>
  \<open>np.reshape(data, (-1, T))\<close> of a float64 array: fails when \<open>T\<close> is negative (a second
  unknown dimension), zero, or does not divide the size. numpy also refuses a shape whose
  non-zero dimensions, times the 8 bytes of an item, do not fit a signed 64-bit size; for
  an array that exists only \<open>T\<close> can cause that (with no rows), from \<open>2 ^ 60\<close> on.
\<close>

definition reshape :: "'a list \<Rightarrow> int \<Rightarrow> error + 'a list list" where
  "reshape xs T =
     (if T \<le> 0 \<or> 2 ^ 60 \<le> T \<or> int (length xs) mod T \<noteq> 0 then Inl DecodeShapeMismatch
      else Inr (rows_of (nat T) xs))"

text \<open>An index array into an axis of size \<open>T\<close>: negative indices count from the end.\<close>

fun index_list :: "int \<Rightarrow> 64 word list \<Rightarrow> error + nat list" where
  "index_list T [] = Inr []"
| "index_list T (i # is) =
     (let k = sint i; j = (if k < 0 then k + T else k)
      in if 0 \<le> j \<and> j < T then
           (case index_list T is of Inl e \<Rightarrow> Inl e | Inr js \<Rightarrow> Inr (nat j # js))
         else Inl IndexError)"

text \<open>Line 92: \<open>data[:, track_index]\<close>.\<close>

definition select_columns :: "'a list list \<Rightarrow> int \<Rightarrow> 64 word list \<Rightarrow> error + 'a list list" where
  "select_columns data T idx =
     (case index_list T idx of
        Inl e \<Rightarrow> Inl e
      | Inr js \<Rightarrow> Inr (map (\<lambda>row. map (\<lambda>j. row ! j) js) data))"

text \<open>Lines 86 to 92 together.\<close>

definition decode :: "8 word list \<Rightarrow> int \<Rightarrow> 64 word list \<Rightarrow> error + matrix" where
  "decode bytes T idx =
     (case frombuffer bytes of
        Inl e \<Rightarrow> Inl e
      | Inr ws \<Rightarrow>
          (case reshape (map astype_float ws) T of
             Inl e \<Rightarrow> Inl e
           | Inr data \<Rightarrow> select_columns data T idx))"

section \<open>Calibration (lines 94 to 109)\<close>

definition unit_factor :: "string option \<Rightarrow> int option" where
  "unit_factor u =
     (if u = Some ''mV'' then Some 1000 else if u = Some ''V'' then Some 1 else None)"

text \<open>\<open>2 ** k\<close> for an int64 \<open>k\<close>: the result is an int64 and wraps around.\<close>

definition pow2_int64 :: "64 word \<Rightarrow> error + 64 word" where
  "pow2_int64 k = (if sint k < 0 then Inl NegativePowerError else Inr (2 ^ unat k))"

text \<open>The right-hand side of line 105 for one sample.\<close>

definition calib_value :: "pyfloat \<Rightarrow> pyfloat \<Rightarrow> 64 word \<Rightarrow> int \<Rightarrow> pyfloat \<Rightarrow> pyfloat" where
  "calib_value x ps p factor gain =
     fdiv (fmul (fdiv (fmul x ps) (fl_of_int (sint p))) (fl_of_int factor)) gain"

text \<open>The loop of line 94 over the channel numbers \<open>ns\<close>; column \<open>n\<close> is updated in place.\<close>

fun calibrate :: "header_doc \<Rightarrow> nat list \<Rightarrow> matrix \<Rightarrow> error + matrix" where
  "calibrate H [] data = Inr data"
| "calibrate H (n # ns) data =
     (case unit_factor (unity_of_measurement_arr H ! n) of
        None \<Rightarrow> Inl UnrecognizedUnit
      | Some factor \<Rightarrow>
          (case pow2_int64 (ad_bits_arr H ! n) of
             Inl e \<Rightarrow> Inl e
           | Inr p \<Rightarrow>
               calibrate H ns
                 (map (\<lambda>row. row[n := calib_value (row ! n) (power_supply_arr H ! n) p factor
                                       (signal_gain_arr H ! n)]) data)))"

text \<open>Lines 108 and 109: the time column is appended as the last column.\<close>

definition time_column :: "nat \<Rightarrow> pyfloat \<Rightarrow> pyfloat list" where
  "time_column rows timestep = map (\<lambda>i. fmul (fl_of_int (int i)) timestep) [0..<rows]"

definition column_stack :: "matrix \<Rightarrow> pyfloat list \<Rightarrow> matrix" where
  "column_stack data time = map (\<lambda>i. data ! i @ [time ! i]) [0..<length data]"

section \<open>The conversion\<close>

record archive =
  form_dock :: "element option"           \<comment> \<open>the root of form_dock00.xml, if the file is there\<close>
  members :: "string \<Rightarrow> 8 word list option"  \<comment> \<open>the other extracted files, by name\<close>

text \<open>Lines 75 to 86: the coercion, \<open>int(track_totalnumber.text)\<close> and the read of the sample file.\<close>

definition open_signals ::
  "lib \<Rightarrow> archive \<Rightarrow> pstate \<Rightarrow> element \<Rightarrow> element \<Rightarrow> error + header_doc \<times> int \<times> 8 word list" where
  "open_signals L a st sp tt =
     (case coerce L (hdrs st) of Inl e \<Rightarrow> Inl e | Inr H \<Rightarrow>
      (case text_of tt of None \<Rightarrow> Inl TypeError | Some ts \<Rightarrow>
       (case py_int L ts of None \<Rightarrow> Inl ValueError | Some T \<Rightarrow>
        (case text_of sp of None \<Rightarrow> Inl TypeError | Some path \<Rightarrow>
         (case members a path of None \<Rightarrow> Inl FileNotFoundError | Some bytes \<Rightarrow>
            Inr (H, T, bytes))))))"

text \<open>
  Lines 46 to 86 on the extracted archive: an error, \<open>None\<close> when the guard of line 73
  skips the body, or the coerced headers, the total number of tracks, the bytes of the
  sample file, the time step and the number of selected signals.
\<close>

definition metadata ::
  "lib \<Rightarrow> archive \<Rightarrow> error + (header_doc \<times> int \<times> 8 word list \<times> pyfloat \<times> nat) option" where
  "metadata L a =
     (case form_dock a of
        None \<Rightarrow> Inl FileNotFoundError
      | Some xroot \<Rightarrow>
          (case read_headers L (iter_elem ''signal'' xroot) init_state of
             Inl e \<Rightarrow> Inl e
           | Inr st \<Rightarrow>
               (case common st of
                  None \<Rightarrow> Inl UnboundLocalError
                | Some (sp, tt, timestep) \<Rightarrow>
                    (case sp of
                       None \<Rightarrow> Inr None
                     | Some sp_el \<Rightarrow>
                         (case tt of
                            None \<Rightarrow> Inr None
                          | Some tt_el \<Rightarrow>
                              (case open_signals L a st sp_el tt_el of
                                 Inl e \<Rightarrow> Inl e
                               | Inr (H, T, bytes) \<Rightarrow>
                                   Inr (Some (H, T, bytes, timestep, n_signals st))))))))"

text \<open>
  Lines 46 to 109: an error, \<open>Inr None\<close> when nothing is to be written, or the header
  document and the table to be written.
\<close>

definition convert :: "lib \<Rightarrow> archive \<Rightarrow> error + (header_doc \<times> matrix) option" where
  "convert L a =
     (case metadata L a of
        Inl e \<Rightarrow> Inl e
      | Inr None \<Rightarrow> Inr None
      | Inr (Some (H, T, bytes, timestep, n)) \<Rightarrow>
          (case decode bytes T (track_index_arr H) of
             Inl e \<Rightarrow> Inl e
           | Inr data \<Rightarrow>
               (case calibrate H [0..<n] data of
                  Inl e \<Rightarrow> Inl e
                | Inr cal \<Rightarrow>
                    Inr (Some (H, column_stack cal (time_column (length cal) timestep))))))"

section \<open>Paths and files\<close>

text \<open>\<open>s.replace(old, new)\<close> for a non-empty \<open>old\<close>: every occurrence, left to right.\<close>

fun replace :: "string \<Rightarrow> string \<Rightarrow> string \<Rightarrow> string" where
  "replace [] old new = []"
| "replace (c # cs) old new =
     (if take (length old) (c # cs) = old
      then new @ replace (drop (length old - 1) cs) old new
      else c # replace cs old new)"

text \<open>\<open>os.path.join(a, b)\<close> on a POSIX system.\<close>

definition path_join :: "string \<Rightarrow> string \<Rightarrow> string" where
  "path_join a b =
     (if take 1 b = ''/'' then b
      else if a = [] \<or> last a = CHR ''/'' then a @ b
      else a @ ''/'' @ b)"

text \<open>The two output paths, as lines 31 and 32 (and again 115 and 119) compute them.\<close>

definition yaml_path :: "string \<Rightarrow> string \<Rightarrow> string" where
  "yaml_path pathname filename = path_join pathname (replace filename ''.otb+'' ''.yaml'')"

definition csv_path :: "string \<Rightarrow> string \<Rightarrow> string" where
  "csv_path pathname filename = path_join pathname (replace filename ''.otb+'' ''.csv'')"

datatype entry = Archive archive | Yaml header_doc | Csv matrix

type_synonym fs = "string \<Rightarrow> entry option"

definition exists :: "fs \<Rightarrow> string \<Rightarrow> bool" where
  "exists f p = (case f p of None \<Rightarrow> False | Some x \<Rightarrow> True)"

text \<open>\<open>tarfile.open\<close> and \<open>extractall\<close>: the content of the archive at the path.\<close>

definition tar_extract :: "fs \<Rightarrow> string \<Rightarrow> error + archive" where
  "tar_extract f p =
     (case f p of
        None \<Rightarrow> Inl FileNotFoundError
      | Some (Archive a) \<Rightarrow> Inr a
      | Some other \<Rightarrow> Inl ReadError)"

text \<open>The function \<open>otread\<close>: the result (an exception or a normal return) and the file system after it.\<close>

definition otread :: "lib \<Rightarrow> fs \<Rightarrow> string \<Rightarrow> string \<Rightarrow> (error + unit) \<times> fs" where
  "otread L f pathname filename =
     (let p1 = yaml_path pathname filename;
          p2 = csv_path pathname filename
      in if exists f p1 \<or> exists f p2 then (Inl AlreadyProcessed, f)
         else
           (case tar_extract f (path_join pathname filename) of
              Inl e \<Rightarrow> (Inl e, f)
            | Inr a \<Rightarrow>
                (case convert L a of
                   Inl e \<Rightarrow> (Inl e, f)
                 | Inr None \<Rightarrow> (Inr (), f)
                 | Inr (Some (H, data)) \<Rightarrow> (Inr (), (f(p1 \<mapsto> Yaml H))(p2 \<mapsto> Csv data)))))"

section \<open>Notions used in the statements\<close>

text \<open>Line 56: a signal is selected when its plugin child has the text LoaderOTComm.\<close>

definition is_selected :: "element \<Rightarrow> bool" where
  "is_selected s =
     (case find_elem ''plugin'' s of None \<Rightarrow> False | Some p \<Rightarrow> text_of p = Some ''LoaderOTComm'')"

definition has_plugin :: "element \<Rightarrow> bool" where
  "has_plugin s = (case find_elem ''plugin'' s of None \<Rightarrow> False | Some p \<Rightarrow> True)"

text \<open>The signal nodes of an archive in document order, and the selected ones among them.\<close>

definition signals :: "archive \<Rightarrow> element list" where
  "signals a = (case form_dock a of None \<Rightarrow> [] | Some xroot \<Rightarrow> iter_elem ''signal'' xroot)"

definition channels :: "archive \<Rightarrow> element list" where
  "channels a = filter is_selected (signals a)"

text \<open>The header lists that the loop builds from a list of selected signals.\<close>

definition collect :: "element list \<Rightarrow> headers" where
  "collect chs = foldl (\<lambda>h s. append_signal s h) empty_headers chs"

text \<open>
  What line 79 does with one entry: an int field rejects an absent entry and text that is not
  an int64; a float field rejects text that is not a float and turns an absent entry into NaN.
\<close>

definition int_rejected :: "lib \<Rightarrow> string option \<Rightarrow> bool" where
  "int_rejected L v =
     (case v of None \<Rightarrow> True | Some s \<Rightarrow> (case np_int L s of None \<Rightarrow> True | Some w \<Rightarrow> False))"

definition float_rejected :: "lib \<Rightarrow> string option \<Rightarrow> bool" where
  "float_rejected L v =
     (case v of None \<Rightarrow> False | Some s \<Rightarrow> (case np_float L s of None \<Rightarrow> True | Some x \<Rightarrow> False))"

definition float_item :: "lib \<Rightarrow> string option \<Rightarrow> pyfloat option" where
  "float_item L v = (case v of None \<Rightarrow> Some NaN | Some s \<Rightarrow> np_float L s)"

definition coercion_fails :: "lib \<Rightarrow> element \<Rightarrow> bool" where
  "coercion_fails L c =
     (int_rejected L (field_text ''track_index'' c) \<or> int_rejected L (field_text ''ad_bits'' c) \<or>
      float_rejected L (field_text ''fsample'' c) \<or> float_rejected L (field_text ''signal_gain'' c) \<or>
      float_rejected L (field_text ''low_pass_filter'' c) \<or>
      float_rejected L (field_text ''high_pass_filter'' c))"

text \<open>
  The encoder of the round trip, after the specification: every sample as two bytes, low byte
  first, the rows one after the other.
\<close>

definition sample_bytes :: "16 word \<Rightarrow> 8 word list" where
  "sample_bytes w = [ucast w, ucast (drop_bit 8 w)]"

definition tobytes :: "16 word list list \<Rightarrow> 8 word list" where
  "tobytes m = concat (map sample_bytes (concat m))"

text \<open>The integer ramp \<open>0, 1, 2, \<dots>\<close> laid out in \<open>N\<close> rows of \<open>M\<close> columns.\<close>

definition ramp :: "nat \<Rightarrow> nat \<Rightarrow> 16 word list list" where
  "ramp N M = map (\<lambda>r. map (\<lambda>c. of_nat (r * M + c)) [0..<M]) [0..<N]"

section \<open>Sample inputs\<close>

text \<open>
  An instance of the library conversions for the worked examples. It reads plain decimal
  integers with an optional minus sign, and on these it agrees with Python and numpy (as a
  float, \<open>-0\<close> is the negative zero). It rejects every other text, although Python and
  numpy accept more (fractions, exponents, surrounding blanks): such texts are not used in
  the examples.
\<close>

fun dec_digits :: "nat \<Rightarrow> string \<Rightarrow> nat option" where
  "dec_digits acc [] = Some acc"
| "dec_digits acc (c # cs) =
     (let d = (of_char c :: nat)
      in if 48 \<le> d \<and> d \<le> 57 then dec_digits (10 * acc + (d - 48)) cs else None)"

definition dec_int :: "string \<Rightarrow> int option" where
  "dec_int s =
     (case s of
        [] \<Rightarrow> None
      | c # cs \<Rightarrow>
          if c = CHR ''-'' then (if cs = [] then None else map_option (\<lambda>n. - int n) (dec_digits 0 cs))
          else map_option int (dec_digits 0 (c # cs)))"

definition dec_int64 :: "string \<Rightarrow> 64 word option" where
  "dec_int64 s =
     (case dec_int s of
        None \<Rightarrow> None
      | Some i \<Rightarrow> if - (2 ^ 63) \<le> i \<and> i < 2 ^ 63 then Some (word_of_int i) else None)"

definition dec_float :: "string \<Rightarrow> pyfloat option" where
  "dec_float s = map_option (\<lambda>i. mk_float (take 1 s = ''-'') (of_int \<bar>i\<bar>)) (dec_int s)"

definition dec_lib :: lib where
  "dec_lib = \<lparr>py_float = dec_float, py_int = dec_int, np_float = dec_float, np_int = dec_int64\<rparr>"

definition leaf :: "string \<Rightarrow> string \<Rightarrow> element" where
  "leaf t x = Element t (Some x) []"

text \<open>
  A signal node with the given plugin, track index, unit, sampling rate, resolution and gain,
  followed by further children.
\<close>

definition signal_node ::
  "string \<Rightarrow> string \<Rightarrow> string \<Rightarrow> string \<Rightarrow> string \<Rightarrow> string \<Rightarrow> element list \<Rightarrow> element" where
  "signal_node plugin ti unit fs ab gain rest =
     Element ''signal'' None
       ([leaf ''plugin'' plugin, leaf ''track_index'' ti, leaf ''description'' ''EMG'',
         leaf ''unity_of_measurement'' unit, leaf ''fsample'' fs, leaf ''ad_bits'' ab,
         leaf ''signal_gain'' gain] @ rest)"

definition filters :: "element list" where
  "filters = [leaf ''low_pass_filter'' ''500'', leaf ''high_pass_filter'' ''10'']"

definition layout :: "string \<Rightarrow> element list" where
  "layout tn = [leaf ''signal_path'' ''a.sig'', leaf ''track_totalnumber'' tn]"

definition mk_archive :: "element list \<Rightarrow> 8 word list \<Rightarrow> archive" where
  "mk_archive sigs bytes =
     \<lparr>form_dock = Some (Element ''root'' None sigs), members = [''a.sig'' \<mapsto> bytes]\<rparr>"

definition mk_fs :: "archive \<Rightarrow> fs" where
  "mk_fs a = [''/d/rec.otb+'' \<mapsto> Archive a]"

text \<open>
  The calibration scenario: one acquired channel in volts with ad_bits 12 and gain 2, and a
  sample file holding the single raw value 2048.
\<close>

definition ar_cal :: archive where
  "ar_cal = mk_archive
     [signal_node ''LoaderOTComm'' ''0'' ''V'' ''2048'' ''12'' ''2'' (filters @ layout ''1'')]
     [0, 8]"

definition doc_cal :: header_doc where
  "doc_cal = \<lparr>track_index_arr = [0], description_arr = [Some ''EMG''],
     unity_of_measurement_arr = [Some ''V''], power_supply_arr = [Fin 5],
     fsample_arr = [Fin 2048], ad_bits_arr = [12], signal_gain_arr = [Fin 2],
     low_pass_filter_arr = [Fin 500], high_pass_filter_arr = [Fin 10]\<rparr>"

text \<open>The same archive with a declared resolution of 64 bits.\<close>

definition ar_bits64 :: archive where
  "ar_bits64 = mk_archive
     [signal_node ''LoaderOTComm'' ''0'' ''V'' ''2048'' ''64'' ''2'' (filters @ layout ''1'')]
     [0, 8]"

definition doc_bits64 :: header_doc where
  "doc_bits64 = doc_cal\<lparr>ad_bits_arr := [64]\<rparr>"




text \<open>
  Four samples of one channel whose sampling rate is declared as 10, and the same with a
  sampling rate declared as -10.
\<close>

definition ar_ten :: archive where
  "ar_ten = mk_archive
     [signal_node ''LoaderOTComm'' ''0'' ''V'' ''10'' ''12'' ''2'' (filters @ layout ''1'')]
     [0, 8, 0, 8, 0, 8, 0, 8]"

definition doc_ten :: header_doc where
  "doc_ten = doc_cal\<lparr>fsample_arr := [Fin 10]\<rparr>"

definition table_ten :: matrix where
  "table_ten =
     [[Fin (5 / 4), Fin 0],
      [Fin (5 / 4), Fin (3602879701896397 / 36028797018963968)],
      [Fin (5 / 4), Fin (3602879701896397 / 18014398509481984)],
      [Fin (5 / 4), Fin (1351079888211149 / 4503599627370496)]]"

definition ar_neg10 :: archive where
  "ar_neg10 = mk_archive
     [signal_node ''LoaderOTComm'' ''0'' ''V'' ''-10'' ''12'' ''2'' (filters @ layout ''1'')]
     [0, 8, 0, 8, 0, 8, 0, 8]"

definition doc_neg10 :: header_doc where
  "doc_neg10 = doc_cal\<lparr>fsample_arr := [Fin (- 10)]\<rparr>"

definition table_neg10 :: matrix where
  "table_neg10 =
     [[Fin (5 / 4), NZero],
      [Fin (5 / 4), Fin (- (3602879701896397 / 36028797018963968))],
      [Fin (5 / 4), Fin (- (3602879701896397 / 18014398509481984))],
      [Fin (5 / 4), Fin (- (1351079888211149 / 4503599627370496))]]"

text \<open>
  Two archives with two acquired channels each, which differ only in the sampling rate
  declared for the second channel.
\<close>

definition ar_two :: "string \<Rightarrow> archive" where
  "ar_two fs2 = mk_archive
     [signal_node ''LoaderOTComm'' ''0'' ''V'' ''2'' ''12'' ''2'' (filters @ layout ''2''),
      signal_node ''LoaderOTComm'' ''1'' ''mV'' fs2 ''12'' ''2'' filters]
     [0, 8, 0, 8, 0, 8, 0, 8]"

definition doc_two :: "rat \<Rightarrow> header_doc" where
  "doc_two fs2 = \<lparr>track_index_arr = [0, 1], description_arr = [Some ''EMG'', Some ''EMG''],
     unity_of_measurement_arr = [Some ''V'', Some ''mV''], power_supply_arr = [Fin 5, Fin 5],
     fsample_arr = [Fin 2, Fin fs2], ad_bits_arr = [12, 12], signal_gain_arr = [Fin 2, Fin 2],
     low_pass_filter_arr = [Fin 500, Fin 500], high_pass_filter_arr = [Fin 10, Fin 10]\<rparr>"

definition table_two :: matrix where
  "table_two = [[Fin (5 / 4), Fin 1250, Fin 0], [Fin (5 / 4), Fin 1250, Fin (1 / 2)]]"

text \<open>Four samples with a declared total number of tracks of -2.\<close>

definition ar_negT :: archive where
  "ar_negT = mk_archive
     [signal_node ''LoaderOTComm'' ''0'' ''V'' ''2048'' ''12'' ''2'' (filters @ layout ''-2'')]
     [0, 8, 0, 8, 0, 8, 0, 8]"

text \<open>Three samples for two tracks.\<close>

definition ar_odd :: archive where
  "ar_odd = mk_archive
     [signal_node ''LoaderOTComm'' ''0'' ''V'' ''2048'' ''12'' ''2'' (filters @ layout ''2'')]
     [0, 8, 0, 8, 0, 8]"

text \<open>An acquired channel whose node lacks the signal_path child.\<close>

definition ar_nopath :: archive where
  "ar_nopath = mk_archive
     [signal_node ''LoaderOTComm'' ''0'' ''V'' ''2048'' ''12'' ''2''
        (filters @ [leaf ''track_totalnumber'' ''1''])]
     [0, 8]"

text \<open>An acquired channel whose node lacks the track_totalnumber child.\<close>

definition ar_nototal :: archive where
  "ar_nototal = mk_archive
     [signal_node ''LoaderOTComm'' ''0'' ''V'' ''2048'' ''12'' ''2''
        (filters @ [leaf ''signal_path'' ''a.sig''])]
     [0, 8]"

text \<open>An archive whose only signal comes from the real-time processing plugin.\<close>

definition ar_none :: archive where
  "ar_none = mk_archive
     [signal_node ''LoaderProcessing'' ''0'' ''V'' ''2048'' ''12'' ''2'' (filters @ layout ''1'')]
     [0, 8]"

text \<open>An acquired channel without a signal_gain child, and one whose ad_bits is not a number.\<close>

definition ar_nogain :: archive where
  "ar_nogain = mk_archive
     [Element ''signal'' None
        ([leaf ''plugin'' ''LoaderOTComm'', leaf ''track_index'' ''0'', leaf ''description'' ''EMG'',
          leaf ''unity_of_measurement'' ''V'', leaf ''fsample'' ''2048'', leaf ''ad_bits'' ''12'']
         @ filters @ layout ''1'')]
     [0, 8]"

definition doc_nogain :: header_doc where
  "doc_nogain = doc_cal\<lparr>signal_gain_arr := [NaN]\<rparr>"

definition ar_badbits :: archive where
  "ar_badbits = mk_archive
     [signal_node ''LoaderOTComm'' ''0'' ''V'' ''2048'' ''twelve'' ''2'' (filters @ layout ''1'')]
     [0, 8]"

section \<open>Lemmas about the stages\<close>

subsection \<open>The header loop\<close>

lemma foldl_append_signal:
  "foldl (\<lambda>h s. append_signal s h) h chs =
     \<lparr>track_index = track_index h @ map (field_text ''track_index'') chs,
      description = description h @ map (field_text ''description'') chs,
      unity_of_measurement = unity_of_measurement h @ map (field_text ''unity_of_measurement'') chs,
      power_supply = power_supply h @ replicate (length chs) 5,
      fsample = fsample h @ map (field_text ''fsample'') chs,
      ad_bits = ad_bits h @ map (field_text ''ad_bits'') chs,
      signal_gain = signal_gain h @ map (field_text ''signal_gain'') chs,
      low_pass_filter = low_pass_filter h @ map (field_text ''low_pass_filter'') chs,
      high_pass_filter = high_pass_filter h @ map (field_text ''high_pass_filter'') chs\<rparr>"
proof (induction chs arbitrary: h)
  case Nil
  show ?case by simp
next
  case (Cons c cs)
  have "foldl (\<lambda>h s. append_signal s h) h (c # cs) =
          foldl (\<lambda>h s. append_signal s h) (append_signal c h) cs"
    by simp
  also note Cons.IH [of "append_signal c h"]
  finally show ?case by (simp add: append_signal_def)
qed

lemma collect_eq:
  "collect chs =
     \<lparr>track_index = map (field_text ''track_index'') chs,
      description = map (field_text ''description'') chs,
      unity_of_measurement = map (field_text ''unity_of_measurement'') chs,
      power_supply = replicate (length chs) 5,
      fsample = map (field_text ''fsample'') chs,
      ad_bits = map (field_text ''ad_bits'') chs,
      signal_gain = map (field_text ''signal_gain'') chs,
      low_pass_filter = map (field_text ''low_pass_filter'') chs,
      high_pass_filter = map (field_text ''high_pass_filter'') chs\<rparr>"
  by (simp add: collect_def foldl_append_signal empty_headers_def)

text \<open>The loop after the first selected signal: only the counter and the lists change.\<close>

lemma read_headers_later:
  "0 < n_signals st \<Longrightarrow> \<forall>s \<in> set ss. has_plugin s \<Longrightarrow>
   read_headers L ss st =
     Inr (st\<lparr>n_signals := n_signals st + length (filter is_selected ss),
            hdrs := foldl (\<lambda>h s. append_signal s h) (hdrs st) (filter is_selected ss)\<rparr>)"
proof (induction ss arbitrary: st)
  case Nil
  show ?case by simp
next
  case (Cons s ss)
  from Cons.prems obtain p where p: "find_elem ''plugin'' s = Some p"
    by (auto simp: has_plugin_def split: option.splits)
  show ?case
  proof (cases "text_of p = Some ''LoaderOTComm''")
    case True
    then have sel: "is_selected s" by (simp add: is_selected_def p)
    let ?st1 = "st\<lparr>n_signals := n_signals st + 1, hdrs := append_signal s (hdrs st)\<rparr>"
    have "read_headers L (s # ss) st = read_headers L ss ?st1"
      using True Cons.prems(1) by (simp add: p Let_def)
    also have "\<dots> = Inr (?st1\<lparr>n_signals := n_signals ?st1 + length (filter is_selected ss),
            hdrs := foldl (\<lambda>h s. append_signal s h) (hdrs ?st1) (filter is_selected ss)\<rparr>)"
      using Cons.prems by (intro Cons.IH) auto
    finally show ?thesis using sel by simp
  next
    case False
    then have sel: "\<not> is_selected s" by (simp add: is_selected_def p)
    have "read_headers L (s # ss) st = read_headers L ss st"
      using False by (simp add: p)
    then show ?thesis using Cons.IH [of st] Cons.prems sel by simp
  qed
qed

lemma read_headers_none:
  "\<forall>s \<in> set ss. has_plugin s \<Longrightarrow> filter is_selected ss = [] \<Longrightarrow> read_headers L ss st = Inr st"
proof (induction ss)
  case Nil
  show ?case by simp
next
  case (Cons s ss)
  from Cons.prems obtain p where p: "find_elem ''plugin'' s = Some p"
    by (auto simp: has_plugin_def split: option.splits)
  from Cons.prems(2) have ns: "\<not> is_selected s" and rest: "filter is_selected ss = []"
    by (auto split: if_splits)
  from ns have "text_of p \<noteq> Some ''LoaderOTComm''" by (simp add: is_selected_def p)
  then show ?case using Cons.IH Cons.prems(1) rest by (simp add: p)
qed

text \<open>The loop from the initial state, up to and including the first selected signal.\<close>

lemma read_headers_first:
  assumes "\<forall>s \<in> set ss. has_plugin s" and "filter is_selected ss = c # cs"
  shows "read_headers L ss init_state =
     (case timestep_of L (field_text ''fsample'' c) of
        Inl e \<Rightarrow> Inl e
      | Inr ts \<Rightarrow>
          Inr \<lparr>n_signals = length (c # cs), hdrs = collect (c # cs),
               common = Some (find_elem ''signal_path'' c, find_elem ''track_totalnumber'' c, ts)\<rparr>)"
  using assms
proof (induction ss)
  case Nil
  then show ?case by simp
next
  case (Cons s ss)
  from Cons.prems obtain p where p: "find_elem ''plugin'' s = Some p"
    by (auto simp: has_plugin_def split: option.splits)
  show ?case
  proof (cases "is_selected s")
    case False
    then have "text_of p \<noteq> Some ''LoaderOTComm''" by (simp add: is_selected_def p)
    then have "read_headers L (s # ss) init_state = read_headers L ss init_state"
      by (simp add: p)
    then show ?thesis using Cons.IH Cons.prems False by simp
  next
    case True
    then have t: "text_of p = Some ''LoaderOTComm''" by (simp add: is_selected_def p)
    from True Cons.prems(2) have c: "c = s" and cs: "cs = filter is_selected ss" by auto
    have rest: "\<forall>s \<in> set ss. has_plugin s" using Cons.prems(1) by simp
    show ?thesis
    proof (cases "timestep_of L (field_text ''fsample'' s)")
      case (Inl e)
      then show ?thesis
        by (simp add: p t c init_state_def append_signal_def empty_headers_def)
    next
      case (Inr ts)
      let ?st1 = "\<lparr>n_signals = 1, hdrs = append_signal s empty_headers,
        common = Some (find_elem ''signal_path'' s, find_elem ''track_totalnumber'' s, ts)\<rparr>"
      have "read_headers L (s # ss) init_state = read_headers L ss ?st1"
        using Inr by (simp add: p t init_state_def append_signal_def empty_headers_def)
      also have "\<dots> = Inr (?st1\<lparr>n_signals := n_signals ?st1 + length (filter is_selected ss),
            hdrs := foldl (\<lambda>h s. append_signal s h) (hdrs ?st1) (filter is_selected ss)\<rparr>)"
        using rest by (intro read_headers_later) auto
      finally show ?thesis using Inr by (simp add: c cs collect_def)
    qed
  qed
qed

text \<open>A signal without a plugin child, met before any failure, raises AttributeError.\<close>

lemma read_headers_success_plugins:
  "read_headers L ss st = Inr st' \<Longrightarrow> \<forall>s \<in> set ss. has_plugin s"
proof (induction ss arbitrary: st)
  case Nil
  show ?case by simp
next
  case (Cons s ss)
  from Cons.prems have hp: "has_plugin s"
    by (auto simp: has_plugin_def split: option.splits)
  from Cons.prems have "\<exists>st1. read_headers L ss st1 = Inr st'"
    by (auto simp: Let_def split: option.splits if_splits list.splits sum.splits)
  then have "\<forall>s \<in> set ss. has_plugin s" using Cons.IH by blast
  with hp show ?case by simp
qed

subsection \<open>The metadata phase\<close>

lemma metadata_no_channel:
  assumes "form_dock a = Some r" and "\<forall>s \<in> set (signals a). has_plugin s" and "channels a = []"
  shows "metadata L a = Inl UnboundLocalError"
proof -
  have "read_headers L (iter_elem ''signal'' r) init_state = Inr init_state"
    using assms by (intro read_headers_none) (simp_all add: signals_def channels_def)
  then show ?thesis by (simp add: metadata_def assms(1) init_state_def)
qed

lemma metadata_first:
  assumes "form_dock a = Some r" and "\<forall>s \<in> set (signals a). has_plugin s"
    and "channels a = c # cs"
  shows "metadata L a =
     (case timestep_of L (field_text ''fsample'' c) of
        Inl e \<Rightarrow> Inl e
      | Inr ts \<Rightarrow>
          (case find_elem ''signal_path'' c of
             None \<Rightarrow> Inr None
           | Some sp \<Rightarrow>
               (case find_elem ''track_totalnumber'' c of
                  None \<Rightarrow> Inr None
                | Some tt \<Rightarrow>
                    (case open_signals L a
                            \<lparr>n_signals = length (c # cs), hdrs = collect (c # cs),
                             common = Some (Some sp, Some tt, ts)\<rparr> sp tt of
                       Inl e \<Rightarrow> Inl e
                     | Inr (H, T, bytes) \<Rightarrow> Inr (Some (H, T, bytes, ts, length (c # cs)))))))"
proof -
  have "read_headers L (iter_elem ''signal'' r) init_state =
     (case timestep_of L (field_text ''fsample'' c) of
        Inl e \<Rightarrow> Inl e
      | Inr ts \<Rightarrow>
          Inr \<lparr>n_signals = length (c # cs), hdrs = collect (c # cs),
               common = Some (find_elem ''signal_path'' c, find_elem ''track_totalnumber'' c, ts)\<rparr>)"
    using assms by (intro read_headers_first) (simp_all add: signals_def channels_def)
  then show ?thesis
    by (simp add: metadata_def assms(1) open_signals_def split: sum.splits option.splits)
qed

lemma open_signals_Inr:
  "open_signals L a st sp tt = Inr (H, T, bytes) \<longleftrightarrow>
     coerce L (hdrs st) = Inr H \<and>
     (\<exists>tts path. text_of tt = Some tts \<and> py_int L tts = Some T \<and>
        text_of sp = Some path \<and> members a path = Some bytes)"
  by (auto simp: open_signals_def split: sum.splits option.splits)

lemma metadata_plugins:
  assumes "metadata L a = Inr res"
  shows "\<forall>s \<in> set (signals a). has_plugin s"
  using assms read_headers_success_plugins
  by (fastforce simp: metadata_def signals_def split: option.splits sum.splits)

lemma metadata_Some:
  assumes "metadata L a = Inr (Some (H, T, bytes, ts, n))"
  shows "\<exists>c cs tts path.
           channels a = c # cs \<and> n = length (c # cs) \<and>
           timestep_of L (field_text ''fsample'' c) = Inr ts \<and>
           field_text ''track_totalnumber'' c = Some tts \<and> py_int L tts = Some T \<and>
           field_text ''signal_path'' c = Some path \<and> members a path = Some bytes \<and>
           coerce L (collect (c # cs)) = Inr H"
proof -
  from assms obtain r where r: "form_dock a = Some r"
    by (auto simp: metadata_def split: option.splits)
  have pl: "\<forall>s \<in> set (signals a). has_plugin s"
    using assms by (rule metadata_plugins)
  show ?thesis
  proof (cases "channels a")
    case Nil
    with r pl have "metadata L a = Inl UnboundLocalError" by (intro metadata_no_channel)
    with assms show ?thesis by simp
  next
    case (Cons c cs)
    note m = metadata_first [OF r pl Cons, of L]
    from assms m obtain sp tt where
        ts: "timestep_of L (field_text ''fsample'' c) = Inr ts"
      and sp: "find_elem ''signal_path'' c = Some sp"
      and tt: "find_elem ''track_totalnumber'' c = Some tt"
      and os: "open_signals L a \<lparr>n_signals = length (c # cs), hdrs = collect (c # cs),
                  common = Some (Some sp, Some tt, ts)\<rparr> sp tt = Inr (H, T, bytes)"
      and n: "n = length (c # cs)"
      by (auto split: sum.splits option.splits)
    from os show ?thesis
      using Cons ts sp tt n by (auto simp: open_signals_Inr field_text_def)
  qed
qed

subsection \<open>Coercion\<close>

lemma to_int_array_error: "to_int_array L vs = Inl e \<Longrightarrow> e = FieldCoercionError"
  by (induction vs arbitrary: e) (auto split: option.splits sum.splits)

lemma to_float_array_error: "to_float_array L vs = Inl e \<Longrightarrow> e = FieldCoercionError"
  by (induction vs arbitrary: e) (auto split: option.splits sum.splits)

lemma to_int_array_Cons_Inl:
  "(\<exists>e. to_int_array L (v # vs) = Inl e) \<longleftrightarrow>
     int_rejected L v \<or> (\<exists>e. to_int_array L vs = Inl e)"
  by (cases v; cases "to_int_array L vs")
     (auto simp: int_rejected_def split: option.splits)

lemma to_float_array_Cons_Inl:
  "(\<exists>e. to_float_array L (v # vs) = Inl e) \<longleftrightarrow>
     float_rejected L v \<or> (\<exists>e. to_float_array L vs = Inl e)"
  by (cases v; cases "to_float_array L vs")
     (auto simp: float_rejected_def split: option.splits)

lemma to_int_array_Inl:
  "(\<exists>e. to_int_array L vs = Inl e) \<longleftrightarrow> (\<exists>v \<in> set vs. int_rejected L v)"
proof (induction vs)
  case Nil
  show ?case by simp
next
  case (Cons v vs)
  show ?case unfolding to_int_array_Cons_Inl Cons.IH by simp
qed

lemma to_float_array_Inl:
  "(\<exists>e. to_float_array L vs = Inl e) \<longleftrightarrow> (\<exists>v \<in> set vs. float_rejected L v)"
proof (induction vs)
  case Nil
  show ?case by simp
next
  case (Cons v vs)
  show ?case unfolding to_float_array_Cons_Inl Cons.IH by simp
qed

lemma to_int_array_Inr:
  "to_int_array L vs = Inr ws \<Longrightarrow>
     length ws = length vs \<and> (\<forall>k < length vs. \<exists>s. vs ! k = Some s \<and> np_int L s = Some (ws ! k))"
proof (induction vs arbitrary: ws)
  case Nil
  then show ?case by simp
next
  case (Cons v vs)
  then show ?case
    by (auto split: option.splits sum.splits simp: nth_Cons split: nat.splits)
qed

lemma to_float_array_Inr:
  "to_float_array L vs = Inr xs \<Longrightarrow>
     length xs = length vs \<and> (\<forall>k < length vs. float_item L (vs ! k) = Some (xs ! k))"
proof (induction vs arbitrary: xs)
  case Nil
  then show ?case by simp
next
  case (Cons v vs)
  then show ?case
    by (auto split: option.splits sum.splits simp: nth_Cons float_item_def split: nat.splits)
qed

lemma coerce_error: "coerce L h = Inl e \<Longrightarrow> e = FieldCoercionError"
  by (auto simp: coerce_def split: sum.splits dest: to_int_array_error to_float_array_error)

lemma coerce_collect_Inl:
  "coerce L (collect chs) = Inl FieldCoercionError \<longleftrightarrow> (\<exists>c \<in> set chs. coercion_fails L c)"
proof -
  let ?ti = "to_int_array L (map (field_text ''track_index'') chs)"
  let ?fs = "to_float_array L (map (field_text ''fsample'') chs)"
  let ?ab = "to_int_array L (map (field_text ''ad_bits'') chs)"
  let ?sg = "to_float_array L (map (field_text ''signal_gain'') chs)"
  let ?lp = "to_float_array L (map (field_text ''low_pass_filter'') chs)"
  let ?hp = "to_float_array L (map (field_text ''high_pass_filter'') chs)"
  have "coerce L (collect chs) = Inl FieldCoercionError \<longleftrightarrow>
        (\<exists>e. ?ti = Inl e) \<or> (\<exists>e. ?fs = Inl e) \<or> (\<exists>e. ?ab = Inl e) \<or>
        (\<exists>e. ?sg = Inl e) \<or> (\<exists>e. ?lp = Inl e) \<or> (\<exists>e. ?hp = Inl e)"
    by (auto simp: coerce_def collect_eq split: sum.splits
             dest: to_int_array_error to_float_array_error)
  also have "\<dots> \<longleftrightarrow> (\<exists>c \<in> set chs. coercion_fails L c)"
    unfolding to_int_array_Inl to_float_array_Inl coercion_fails_def by auto
  finally show ?thesis .
qed

lemma mk_float_zero: "mk_float neg 0 = signed_zero neg"
  by (simp add: mk_float_def)

lemma fl_of_int_0: "fl_of_int 0 = Fin 0"
  by (simp add: fl_of_int_def mk_float_zero signed_zero_def)

lemma fl_of_int_5: "fl_of_int 5 = Fin 5"
  by code_simp

lemma coerce_collect_Inr:
  assumes "coerce L (collect chs) = Inr H"
  shows "length (track_index_arr H) = length chs \<and> length (description_arr H) = length chs \<and>
         length (unity_of_measurement_arr H) = length chs \<and> length (power_supply_arr H) = length chs \<and>
         length (fsample_arr H) = length chs \<and> length (ad_bits_arr H) = length chs \<and>
         length (signal_gain_arr H) = length chs \<and> length (low_pass_filter_arr H) = length chs \<and>
         length (high_pass_filter_arr H) = length chs"
    and "description_arr H = map (field_text ''description'') chs"
    and "unity_of_measurement_arr H = map (field_text ''unity_of_measurement'') chs"
    and "power_supply_arr H = replicate (length chs) (Fin 5)"
    and "\<forall>k < length chs. \<exists>s. field_text ''track_index'' (chs ! k) = Some s \<and>
            np_int L s = Some (track_index_arr H ! k)"
    and "\<forall>k < length chs. \<exists>s. field_text ''ad_bits'' (chs ! k) = Some s \<and>
            np_int L s = Some (ad_bits_arr H ! k)"
    and "\<forall>k < length chs. float_item L (field_text ''fsample'' (chs ! k)) = Some (fsample_arr H ! k)"
    and "\<forall>k < length chs. float_item L (field_text ''signal_gain'' (chs ! k)) = Some (signal_gain_arr H ! k)"
    and "\<forall>k < length chs. float_item L (field_text ''low_pass_filter'' (chs ! k)) = Some (low_pass_filter_arr H ! k)"
    and "\<forall>k < length chs. float_item L (field_text ''high_pass_filter'' (chs ! k)) = Some (high_pass_filter_arr H ! k)"
proof -
  from assms obtain ti fs ab sg lp hp where
      ti: "to_int_array L (map (field_text ''track_index'') chs) = Inr ti"
    and fs: "to_float_array L (map (field_text ''fsample'') chs) = Inr fs"
    and ab: "to_int_array L (map (field_text ''ad_bits'') chs) = Inr ab"
    and sg: "to_float_array L (map (field_text ''signal_gain'') chs) = Inr sg"
    and lp: "to_float_array L (map (field_text ''low_pass_filter'') chs) = Inr lp"
    and hp: "to_float_array L (map (field_text ''high_pass_filter'') chs) = Inr hp"
    and H: "H = \<lparr>track_index_arr = ti, description_arr = map (field_text ''description'') chs,
                  unity_of_measurement_arr = map (field_text ''unity_of_measurement'') chs,
                  power_supply_arr = map fl_of_int (replicate (length chs) 5),
                  fsample_arr = fs, ad_bits_arr = ab, signal_gain_arr = sg,
                  low_pass_filter_arr = lp, high_pass_filter_arr = hp\<rparr>"
    by (auto simp: coerce_def collect_eq split: sum.splits)
  note i = to_int_array_Inr [OF ti] to_int_array_Inr [OF ab]
  note f = to_float_array_Inr [OF fs] to_float_array_Inr [OF sg]
    to_float_array_Inr [OF lp] to_float_array_Inr [OF hp]
  show "length (track_index_arr H) = length chs \<and> length (description_arr H) = length chs \<and>
         length (unity_of_measurement_arr H) = length chs \<and> length (power_supply_arr H) = length chs \<and>
         length (fsample_arr H) = length chs \<and> length (ad_bits_arr H) = length chs \<and>
         length (signal_gain_arr H) = length chs \<and> length (low_pass_filter_arr H) = length chs \<and>
         length (high_pass_filter_arr H) = length chs"
    using i f by (simp add: H)
  show "description_arr H = map (field_text ''description'') chs" by (simp add: H)
  show "unity_of_measurement_arr H = map (field_text ''unity_of_measurement'') chs" by (simp add: H)
  show "power_supply_arr H = replicate (length chs) (Fin 5)" by (simp add: H fl_of_int_5)
  show "\<forall>k < length chs. \<exists>s. field_text ''track_index'' (chs ! k) = Some s \<and>
            np_int L s = Some (track_index_arr H ! k)"
    using i(1) by (simp add: H)
  show "\<forall>k < length chs. \<exists>s. field_text ''ad_bits'' (chs ! k) = Some s \<and>
            np_int L s = Some (ad_bits_arr H ! k)"
    using i(2) by (simp add: H)
  show "\<forall>k < length chs. float_item L (field_text ''fsample'' (chs ! k)) = Some (fsample_arr H ! k)"
    using f(1) by (simp add: H)
  show "\<forall>k < length chs. float_item L (field_text ''signal_gain'' (chs ! k)) = Some (signal_gain_arr H ! k)"
    using f(2) by (simp add: H)
  show "\<forall>k < length chs. float_item L (field_text ''low_pass_filter'' (chs ! k)) = Some (low_pass_filter_arr H ! k)"
    using f(3) by (simp add: H)
  show "\<forall>k < length chs. float_item L (field_text ''high_pass_filter'' (chs ! k)) = Some (high_pass_filter_arr H ! k)"
    using f(4) by (simp add: H)
qed

subsection \<open>Decoding\<close>

lemma frombuffer_Inr:
  "frombuffer bs = Inr ws \<Longrightarrow>
     length bs = 2 * length ws \<and>
     (\<forall>k < length ws. ws ! k = ucast (bs ! (2 * k + 1)) * 256 + ucast (bs ! (2 * k)))"
proof (induction bs arbitrary: ws rule: frombuffer.induct)
  case 1
  then show ?case by simp
next
  case (2 b)
  then show ?case by simp
next
  case (3 lo hi bs)
  from "3.prems" obtain ws' where ws': "frombuffer bs = Inr ws'"
    and ws: "ws = (ucast hi * 256 + ucast lo) # ws'"
    by (auto split: sum.splits)
  from "3.IH" [OF ws'] show ?case
    by (auto simp: ws nth_Cons split: nat.splits)
qed

lemma frombuffer_error: "frombuffer bs = Inl e \<Longrightarrow> e = BufferSizeError \<and> odd (length bs)"
  by (induction bs arbitrary: e rule: frombuffer.induct) (auto split: sum.splits)

lemma frombuffer_even: "even (length bs) \<Longrightarrow> \<exists>ws. frombuffer bs = Inr ws"
  by (induction bs rule: frombuffer.induct) (auto split: sum.splits)

lemma length_rows_of: "length (rows_of n xs) = length xs div n"
  by (simp add: rows_of_def)

lemma rows_of_nth:
  assumes "0 < n" and "r < length xs div n" and "c < n"
  shows "length (rows_of n xs ! r) = n" and "rows_of n xs ! r ! c = xs ! (r * n + c)"
proof -
  have "(r + 1) * n \<le> (length xs div n) * n"
    using assms(2) by (intro mult_le_mono1) simp
  also have "\<dots> \<le> length xs" by simp
  finally have le: "r * n + n \<le> length xs" by simp
  show "length (rows_of n xs ! r) = n"
    using assms le by (simp add: rows_of_def)
  show "rows_of n xs ! r ! c = xs ! (r * n + c)"
    using assms le by (simp add: rows_of_def)
qed

lemma reshape_Inr:
  "reshape xs T = Inr m \<longleftrightarrow>
     0 < T \<and> T < 2 ^ 60 \<and> int (length xs) mod T = 0 \<and> m = rows_of (nat T) xs"
  by (auto simp: reshape_def)

lemma reshape_Inl:
  "reshape xs T = Inl e \<longleftrightarrow>
     e = DecodeShapeMismatch \<and> (T \<le> 0 \<or> 2 ^ 60 \<le> T \<or> int (length xs) mod T \<noteq> 0)"
  by (auto simp: reshape_def)

lemma index_list_Inr:
  "index_list T idx = Inr js \<Longrightarrow>
     length js = length idx \<and>
     (\<forall>k < length idx. int (js ! k) < T \<and>
        int (js ! k) = (if sint (idx ! k) < 0 then sint (idx ! k) + T else sint (idx ! k)))"
proof (induction idx arbitrary: js)
  case Nil
  then show ?case by simp
next
  case (Cons i idx)
  define j where "j = (if sint i < 0 then sint i + T else sint i)"
  from Cons.prems obtain js' where js': "index_list T idx = Inr js'"
    and js: "js = nat j # js'" and rng: "0 \<le> j" "j < T"
    by (auto simp: Let_def j_def split: if_splits sum.splits)
  from Cons.IH [OF js'] have len: "length js' = length idx"
    and tl: "\<And>k. k < length idx \<Longrightarrow> int (js' ! k) < T \<and>
        int (js' ! k) = (if sint (idx ! k) < 0 then sint (idx ! k) + T else sint (idx ! k))"
    by blast+
  have "int (js ! k) < T \<and>
        int (js ! k) =
          (if sint ((i # idx) ! k) < 0 then sint ((i # idx) ! k) + T else sint ((i # idx) ! k))"
    if "k < length (i # idx)" for k
  proof (cases k)
    case 0
    then show ?thesis using rng by (simp add: j_def js)
  next
    case (Suc k')
    with that have "k' < length idx" by simp
    from tl [OF this] show ?thesis by (simp add: Suc js)
  qed
  moreover have "length js = length (i # idx)" by (simp add: js len)
  ultimately show ?case by blast
qed

lemma index_list_error: "index_list T idx = Inl e \<Longrightarrow> e = IndexError"
  by (induction idx arbitrary: e) (auto simp: Let_def split: if_splits sum.splits)

lemma select_columns_Inr:
  assumes "select_columns data T idx = Inr sel"
  shows "length sel = length data"
    and "\<forall>r < length data. length (sel ! r) = length idx"
    and "\<forall>r < length data. \<forall>k < length idx.
           \<exists>j. int j < T \<and> int j = (if sint (idx ! k) < 0 then sint (idx ! k) + T else sint (idx ! k))
               \<and> sel ! r ! k = data ! r ! j"
proof -
  from assms obtain js where js: "index_list T idx = Inr js"
    and sel: "sel = map (\<lambda>row. map (\<lambda>j. row ! j) js) data"
    by (auto simp: select_columns_def split: sum.splits)
  note il = index_list_Inr [OF js]
  show "length sel = length data" by (simp add: sel)
  show "\<forall>r < length data. length (sel ! r) = length idx" using il by (simp add: sel)
  show "\<forall>r < length data. \<forall>k < length idx.
           \<exists>j. int j < T \<and> int j = (if sint (idx ! k) < 0 then sint (idx ! k) + T else sint (idx ! k))
               \<and> sel ! r ! k = data ! r ! j"
  proof (intro allI impI)
    fix r k assume r: "r < length data" and k: "k < length idx"
    from il k have "int (js ! k) < T \<and>
        int (js ! k) = (if sint (idx ! k) < 0 then sint (idx ! k) + T else sint (idx ! k))"
      by blast
    moreover have "sel ! r ! k = data ! r ! (js ! k)"
      using r k il by (simp add: sel)
    ultimately show "\<exists>j. int j < T \<and>
        int j = (if sint (idx ! k) < 0 then sint (idx ! k) + T else sint (idx ! k))
               \<and> sel ! r ! k = data ! r ! j"
      by blast
  qed
qed

lemma decode_error:
  "decode bytes T idx = Inl e \<Longrightarrow> e = BufferSizeError \<or> e = DecodeShapeMismatch \<or> e = IndexError"
  by (auto simp: decode_def select_columns_def reshape_Inl
           split: sum.splits dest: frombuffer_error index_list_error)

subsection \<open>The calibration loop\<close>

lemma calibrate_length:
  "calibrate H ns data = Inr cal \<Longrightarrow> length cal = length data"
proof (induction ns arbitrary: data)
  case Nil
  then show ?case by simp
next
  case (Cons n ns)
  then show ?case by (fastforce split: option.splits sum.splits)
qed

lemma calibrate_row_length:
  "calibrate H ns data = Inr cal \<Longrightarrow> r < length data \<Longrightarrow> length (cal ! r) = length (data ! r)"
proof (induction ns arbitrary: data)
  case Nil
  then show ?case by simp
next
  case (Cons n ns)
  then show ?case by (fastforce split: option.splits sum.splits)
qed

lemma calibrate_error:
  "calibrate H ns data = Inl e \<Longrightarrow> e = UnrecognizedUnit \<or> e = NegativePowerError"
proof (induction ns arbitrary: data)
  case Nil
  then show ?case by simp
next
  case (Cons n ns)
  then show ?case
    by (fastforce simp: pow2_int64_def split: option.splits sum.splits if_splits)
qed



subsection \<open>The time column\<close>

lemma column_stack_nth:
  "r < length data \<Longrightarrow> column_stack data time ! r = data ! r @ [time ! r]"
  by (simp add: column_stack_def)


lemma map_last_column_stack:
  "length time = length data \<Longrightarrow> map last (column_stack data time) = time"
  by (rule nth_equalityI) (simp_all add: column_stack_def)

lemma length_time_column: "length (time_column n ts) = n"
  by (simp add: time_column_def)

subsection \<open>The encoder\<close>

lemma bytes_join:
  "ucast (ucast (drop_bit 8 w) :: 8 word) * 256 + ucast (ucast w :: 8 word) = (w :: 16 word)"
proof -
  have "word_split w = (ucast (drop_bit 8 w) :: 8 word, ucast w :: 8 word)"
    by (simp add: word_split_def)
  then have "word_cat (ucast (drop_bit 8 w) :: 8 word) (ucast w :: 8 word) = w"
    by (rule word_cat_split_alt [rotated]) (simp add: word_size)
  then show ?thesis by (simp add: word_cat_eq push_bit_eq_mult)
qed

lemma frombuffer_sample_bytes: "frombuffer (concat (map sample_bytes ws)) = Inr ws"
  by (induction ws) (simp_all add: sample_bytes_def bytes_join)

lemma length_concat_uniform: "\<forall>row \<in> set m. length row = n \<Longrightarrow> length (concat m) = length m * n"
  by (induction m) simp_all

lemma take_drop_concat:
  "\<forall>row \<in> set m. length row = n \<Longrightarrow> r < length m \<Longrightarrow> take n (drop (r * n) (concat m)) = m ! r"
proof (induction m arbitrary: r)
  case Nil
  then show ?case by simp
next
  case (Cons row m)
  show ?case
  proof (cases r)
    case 0
    then show ?thesis using Cons.prems by simp
  next
    case (Suc r')
    then show ?thesis using Cons.prems Cons.IH [of r'] by simp
  qed
qed

lemma rows_of_concat:
  assumes "\<forall>row \<in> set m. length row = n" and "0 < n"
  shows "rows_of n (concat m) = m"
proof (rule nth_equalityI)
  note len = length_concat_uniform [OF assms(1)]
  show "length (rows_of n (concat m)) = length m"
    using assms(2) by (simp add: length_rows_of len)
next
  note len = length_concat_uniform [OF assms(1)]
  fix r assume "r < length (rows_of n (concat m))"
  then have r: "r < length m" using assms(2) by (simp add: length_rows_of len)
  then show "rows_of n (concat m) ! r = m ! r"
    using assms by (simp add: rows_of_def len take_drop_concat)
qed

subsection \<open>The function otread\<close>

lemma otread_guard:
  "exists f (yaml_path d n) \<or> exists f (csv_path d n) \<Longrightarrow> otread L f d n = (Inl AlreadyProcessed, f)"
  by (simp add: otread_def)

lemma otread_run:
  "\<not> exists f (yaml_path d n) \<Longrightarrow> \<not> exists f (csv_path d n) \<Longrightarrow>
   tar_extract f (path_join d n) = Inr a \<Longrightarrow>
   otread L f d n =
     (case convert L a of
        Inl e \<Rightarrow> (Inl e, f)
      | Inr None \<Rightarrow> (Inr (), f)
      | Inr (Some (H, data)) \<Rightarrow> (Inr (), (f(yaml_path d n \<mapsto> Yaml H))(csv_path d n \<mapsto> Csv data)))"
  by (simp add: otread_def)


lemma otread_success:
  assumes "otread L f d n = (Inr u, f')"
  shows "\<not> exists f (yaml_path d n) \<and> \<not> exists f (csv_path d n) \<and>
         (\<exists>a. tar_extract f (path_join d n) = Inr a \<and>
            (convert L a = Inr None \<and> f' = f \<or>
             (\<exists>H data. convert L a = Inr (Some (H, data)) \<and>
                f' = (f(yaml_path d n \<mapsto> Yaml H))(csv_path d n \<mapsto> Csv data))))"
  using assms
  by (auto simp: otread_def Let_def split: if_splits sum.splits option.splits)


lemma convert_Some:
  assumes "convert L a = Inr (Some (H, out))"
  shows "\<exists>T bytes ts n raw cal.
           metadata L a = Inr (Some (H, T, bytes, ts, n)) \<and>
           decode bytes T (track_index_arr H) = Inr raw \<and>
           calibrate H [0..<n] raw = Inr cal \<and>
           out = column_stack cal (time_column (length cal) ts)"
  using assms by (auto simp: convert_def split: sum.splits option.splits)

lemma convert_error_metadata: "metadata L a = Inl e \<Longrightarrow> convert L a = Inl e"
  by (simp add: convert_def)

lemma convert_None: "metadata L a = Inr None \<Longrightarrow> convert L a = Inr None"
  by (simp add: convert_def)

lemma otread_yaml:
  assumes "otread L f d n = (Inr u, f')" and "f' (yaml_path d n) = Some (Yaml H)"
  shows "\<exists>a out. tar_extract f (path_join d n) = Inr a \<and> convert L a = Inr (Some (H, out)) \<and>
           f' (csv_path d n) = Some (Csv out)"
proof -
  from otread_success [OF assms(1)] obtain a where
      g: "\<not> exists f (yaml_path d n)" "\<not> exists f (csv_path d n)"
    and a: "tar_extract f (path_join d n) = Inr a"
    and c: "convert L a = Inr None \<and> f' = f \<or>
             (\<exists>H data. convert L a = Inr (Some (H, data)) \<and>
                f' = (f(yaml_path d n \<mapsto> Yaml H))(csv_path d n \<mapsto> Csv data))"
    by blast
  from g assms(2) have "f' \<noteq> f" by (auto simp: exists_def)
  with c obtain H' data where c': "convert L a = Inr (Some (H', data))"
    and f': "f' = (f(yaml_path d n \<mapsto> Yaml H'))(csv_path d n \<mapsto> Csv data)"
    by blast
  from f' assms(2) have "H' = H" by (auto split: if_splits)
  with a c' f' show ?thesis by auto
qed

lemma otread_csv:
  assumes "otread L f d n = (Inr u, f')" and "f' (csv_path d n) = Some (Csv out)"
  shows "\<exists>a H. tar_extract f (path_join d n) = Inr a \<and> convert L a = Inr (Some (H, out))"
proof -
  from otread_success [OF assms(1)] obtain a where
      g: "\<not> exists f (yaml_path d n)" "\<not> exists f (csv_path d n)"
    and a: "tar_extract f (path_join d n) = Inr a"
    and c: "convert L a = Inr None \<and> f' = f \<or>
             (\<exists>H data. convert L a = Inr (Some (H, data)) \<and>
                f' = (f(yaml_path d n \<mapsto> Yaml H))(csv_path d n \<mapsto> Csv data))"
    by blast
  from g assms(2) have "f' \<noteq> f" by (auto simp: exists_def)
  with c obtain H' data where c': "convert L a = Inr (Some (H', data))"
    and f': "f' = (f(yaml_path d n \<mapsto> Yaml H'))(csv_path d n \<mapsto> Csv data)"
    by blast
  from f' assms(2) have "data = out" by simp
  with a c' show ?thesis by auto
qed

subsection \<open>Further facts about the whole run\<close>

lemma read_headers_init_Inr:
  assumes "read_headers L ss init_state = Inr st"
  shows "n_signals st = length (filter is_selected ss) \<and> hdrs st = collect (filter is_selected ss)"
proof -
  have pl: "\<forall>s \<in> set ss. has_plugin s"
    using assms by (rule read_headers_success_plugins)
  show ?thesis
  proof (cases "filter is_selected ss")
    case Nil
    with pl have "read_headers L ss init_state = Inr init_state" by (intro read_headers_none)
    with assms have "st = init_state" by simp
    then show ?thesis by (simp add: Nil init_state_def collect_def)
  next
    case (Cons c cs)
    from read_headers_first [OF pl Cons, of L] assms show ?thesis
      by (auto simp: Cons split: sum.splits)
  qed
qed

lemma sint_pow2:
  assumes "0 \<le> sint k" and "sint k \<le> 62"
  shows "sint (2 ^ unat k :: 64 word) = 2 ^ nat (sint (k :: 64 word))"
proof -
  have "uint k = take_bit 64 (sint k)" by (simp add: uint_sint)
  also have "\<dots> = sint k"
    using assms by (intro take_bit_int_eq_self) simp_all
  finally have u: "unat k = nat (sint k)" by (simp add: unat_eq_nat_uint)
  from assms have lt: "nat (sint k) < 63" by linarith
  have "(2 :: 64 word) ^ nat (sint k) = word_of_int (2 ^ nat (sint k))" by simp
  then have "sint (2 ^ nat (sint k) :: 64 word) = signed_take_bit 63 ((2 :: int) ^ nat (sint k))"
    by (simp only: sint_sbintrunc') simp
  also have "\<dots> = 2 ^ nat (sint k)"
  proof (rule signed_take_bit_int_eq_self)
    show "- (2 ^ 63) \<le> (2 :: int) ^ nat (sint k)" by (rule order_trans [of _ 0]) simp_all
    show "(2 :: int) ^ nat (sint k) < 2 ^ 63" using lt by (intro power_strict_increasing) simp_all
  qed
  finally show ?thesis by (simp add: u)
qed

lemma frombuffer_tobytes: "frombuffer (tobytes m) = Inr (concat m)"
  by (simp add: tobytes_def frombuffer_sample_bytes)

lemma reshape_concat:
  assumes "\<forall>row \<in> set m. length row = M" and "0 < M" and "int M < 2 ^ 60"
  shows "reshape (concat m) (int M) = Inr m"
proof -
  have "int (length (concat m)) mod int M = 0"
    by (simp add: length_concat_uniform [OF assms(1)])
  then show ?thesis
    using assms by (simp add: reshape_def rows_of_concat)
qed

lemma decode_shape:
  assumes "decode bytes T idx = Inr raw"
  shows "\<exists>ws. frombuffer bytes = Inr ws \<and> 0 < T \<and> T < 2 ^ 60 \<and> int (length ws) mod T = 0 \<and>
           length raw = length ws div nat T"
    and "\<forall>r < length raw. length (raw ! r) = length idx"
proof -
  from assms obtain ws data where ws: "frombuffer bytes = Inr ws"
    and d: "reshape (map astype_float ws) T = Inr data"
    and s: "select_columns data T idx = Inr raw"
    by (auto simp: decode_def split: sum.splits)
  from d have T: "0 < T" "T < 2 ^ 60" "int (length ws) mod T = 0"
    and data: "data = rows_of (nat T) (map astype_float ws)"
    by (simp_all add: reshape_Inr)
  note sc = select_columns_Inr [OF s]
  show "\<exists>ws. frombuffer bytes = Inr ws \<and> 0 < T \<and> T < 2 ^ 60 \<and> int (length ws) mod T = 0 \<and>
           length raw = length ws div nat T"
    using ws T sc(1) by (simp add: data length_rows_of)
  show "\<forall>r < length raw. length (raw ! r) = length idx"
    using sc(1,2) by simp
qed

lemma otread_convert_error:
  "\<not> exists f (yaml_path d n) \<Longrightarrow> \<not> exists f (csv_path d n) \<Longrightarrow>
   tar_extract f (path_join d n) = Inr a \<Longrightarrow> convert L a = Inl e \<Longrightarrow>
   otread L f d n = (Inl e, f)"
  by (simp add: otread_run)

lemma otread_convert_None:
  "\<not> exists f (yaml_path d n) \<Longrightarrow> \<not> exists f (csv_path d n) \<Longrightarrow>
   tar_extract f (path_join d n) = Inr a \<Longrightarrow> convert L a = Inr None \<Longrightarrow>
   otread L f d n = (Inr (), f)"
  by (simp add: otread_run)


lemma calibrate_bad_fails:
  "k \<in> set ns \<Longrightarrow> unit_factor (unity_of_measurement_arr H ! k) = None \<Longrightarrow>
   \<exists>e. calibrate H ns data = Inl e"
proof (induction ns arbitrary: data)
  case Nil
  then show ?case by simp
next
  case (Cons x xs)
  show ?case
  proof (cases "x = k")
    case True
    then show ?thesis using Cons.prems by simp
  next
    case False
    with Cons.prems have "k \<in> set xs" by simp
    from Cons.IH [OF this Cons.prems(2)] show ?thesis
      by (auto split: option.splits sum.splits)
  qed
qed


lemma timestep_of_Inr:
  "timestep_of L v = Inr ts \<longleftrightarrow>
     (\<exists>x y. v = Some x \<and> py_float L x = Some y \<and> \<not> is_zero y \<and> ts = fdiv (Fin 1) y)"
  by (auto simp: timestep_of_def split: option.splits)

lemma convert_time:
  assumes "convert L a = Inr (Some (H, out))"
  shows "\<exists>c cs tts path bytes T ts ws cal.
           channels a = c # cs \<and> timestep_of L (field_text ''fsample'' c) = Inr ts \<and>
           field_text ''track_totalnumber'' c = Some tts \<and> py_int L tts = Some T \<and>
           field_text ''signal_path'' c = Some path \<and> members a path = Some bytes \<and>
           frombuffer bytes = Inr ws \<and> 0 < T \<and> length cal = length ws div nat T \<and>
           (\<forall>r < length cal. length (cal ! r) = length (c # cs)) \<and>
           out = column_stack cal (time_column (length cal) ts)"
proof -
  from convert_Some [OF assms] obtain T bytes ts m raw cal where
      md: "metadata L a = Inr (Some (H, T, bytes, ts, m))"
    and dec: "decode bytes T (track_index_arr H) = Inr raw"
    and cal: "calibrate H [0..<m] raw = Inr cal"
    and out: "out = column_stack cal (time_column (length cal) ts)"
    by blast
  from metadata_Some [OF md] obtain c cs tts path where
      chs: "channels a = c # cs" and m: "m = length (c # cs)"
    and ts: "timestep_of L (field_text ''fsample'' c) = Inr ts"
    and tt: "field_text ''track_totalnumber'' c = Some tts" "py_int L tts = Some T"
    and sp: "field_text ''signal_path'' c = Some path" "members a path = Some bytes"
    and co: "coerce L (collect (c # cs)) = Inr H"
    by blast
  from decode_shape(1) [OF dec] obtain ws where ws: "frombuffer bytes = Inr ws"
    and T: "0 < T" and lr: "length raw = length ws div nat T" by blast
  have len: "length cal = length raw" using cal by (rule calibrate_length)
  have rl: "\<forall>r < length cal. length (cal ! r) = length (c # cs)"
  proof (intro allI impI)
    fix r assume "r < length cal"
    then have r: "r < length raw" by (simp add: len)
    have "length (cal ! r) = length (raw ! r)" using cal r by (rule calibrate_row_length)
    also have "\<dots> = length (track_index_arr H)" using decode_shape(2) [OF dec] r by blast
    also have "\<dots> = length (c # cs)" using coerce_collect_Inr(1) [OF co] by blast
    finally show "length (cal ! r) = length (c # cs)" .
  qed
  have lc: "length cal = length ws div nat T" by (simp add: len lr)
  show ?thesis
    using chs ts tt sp ws T lc rl out by blast
qed

lemma time_column_nth: "i < n \<Longrightarrow> time_column n ts ! i = fmul (fl_of_int (int i)) ts"
  by (simp add: time_column_def)

subsection \<open>The calibrated cell\<close>



subsection \<open>Integers that float64 represents exactly\<close>

lemma round_half_even_int: "round_half_even (of_int k) = k"
  by (simp add: round_half_even_def)

lemma pow2_neg: "e \<le> 0 \<Longrightarrow> pow2 e = 1 / 2 ^ nat (- e)"
  by (auto simp: pow2_def)

lemma round64_int:
  assumes "0 < i" and "i < 2 ^ 53"
  shows "round64 (of_int i) = Some (of_int i)"
proof -
  let ?b = "bitlen i"
  from bitlen_bounds [OF assms(1)] have lo: "2 ^ nat (?b - 1) \<le> i" and hi: "i < 2 ^ nat ?b"
    by simp_all
  have b1: "1 \<le> ?b"
    using assms(1) bitlen_nonneg [of i] bitlen_eq_zero_iff [of i] by linarith
  have b53: "?b \<le> 53"
  proof (rule ccontr)
    assume "\<not> ?b \<le> 53"
    then have "53 \<le> nat (?b - 1)" by simp
    then have "(2 :: int) ^ 53 \<le> 2 ^ nat (?b - 1)" by (intro power_increasing) simp_all
    with lo assms(2) show False by simp
  qed
  have fl: "floor_log2 (of_int i) = ?b - 1"
    using assms(1) by (simp add: floor_log2_def)
  define e where "e = ?b - 53"
  have e: "max (floor_log2 (of_int i) - 52) (- 1074) = e"
    using b1 by (simp add: fl e_def)
  have e0: "e \<le> 0" using b53 by (simp add: e_def)
  define k where "k = i * 2 ^ nat (- e)"
  have q: "(of_int i :: rat) / pow2 e = of_int k"
    by (simp add: pow2_neg [OF e0] k_def)
  have kpos: "0 < k" using assms(1) by (simp add: k_def)
  have "k < 2 ^ nat ?b * 2 ^ nat (- e)"
    unfolding k_def using hi by (intro mult_strict_right_mono) simp_all
  also have "\<dots> = 2 ^ 53"
    using b1 b53 by (simp add: e_def power_add [symmetric] nat_add_distrib [symmetric] del: nat_add_distrib)
  finally have k53: "k < 2 ^ 53" .
  have "bitlen k \<le> 53"
    using k53 kpos by (simp add: bitlen_le_iff_power)
  with e0 have ov: "\<not> 1025 \<le> bitlen k + e" by simp
  have bk: "(of_int k :: rat) * pow2 e = of_int i"
    by (simp add: pow2_neg [OF e0] k_def)
  show ?thesis
    unfolding round64_def e Let_def q round_half_even_int using ov bk by simp
qed

lemma fl_of_int_exact: "\<bar>i\<bar> < 2 ^ 53 \<Longrightarrow> fl_of_int i = Fin (of_int i)"
proof (cases "i = 0")
  case True
  then show ?thesis by (simp add: fl_of_int_0)
next
  case False
  assume b: "\<bar>i\<bar> < 2 ^ 53"
  from False have "0 < \<bar>i\<bar>" by simp
  from round64_int [OF this b] False show ?thesis
    by (simp add: fl_of_int_def mk_float_def)
qed

lemma astype_float_exact: "astype_float w = Fin (of_int (sint w))"
proof -
  have "sint w < 2 ^ 15" "- (2 ^ 15) \<le> sint w"
    using sint_lt [of w] sint_ge [of w] by simp_all
  then have "\<bar>sint w\<bar> < 2 ^ 53" by simp
  then show ?thesis unfolding astype_float_def by (rule fl_of_int_exact)
qed

section \<open>Evaluation of the sample inputs\<close>

text \<open>The float operations that the examples perform, each evaluated on its own.\<close>

lemma dec_float_facts:
  "dec_float ''2048'' = Some (Fin 2048)" "dec_float ''2'' = Some (Fin 2)"
  "dec_float ''500'' = Some (Fin 500)" "dec_float ''10'' = Some (Fin 10)"
  "dec_float ''1000'' = Some (Fin 1000)" "dec_float ''-10'' = Some (Fin (- 10))"
  by code_simp+

lemma fl_of_int_facts:
  "fl_of_int 1 = Fin 1" "fl_of_int 2 = Fin 2" "fl_of_int 3 = Fin 3"
  "fl_of_int 1000 = Fin 1000" "fl_of_int 2048 = Fin 2048" "fl_of_int 4096 = Fin 4096"
  by code_simp+

lemma fdiv_facts:
  "fdiv (Fin 1) (Fin 2048) = Fin (1 / 2048)" "fdiv (Fin 1) (Fin 2) = Fin (1 / 2)"
  "fdiv (Fin 1) (Fin 10) = Fin (3602879701896397 / 36028797018963968)"
  "fdiv (Fin 1) (Fin (- 10)) = Fin (- (3602879701896397 / 36028797018963968))"
  "fdiv (Fin 10240) (Fin 4096) = Fin (5 / 2)" "fdiv (Fin (5 / 2)) (Fin 2) = Fin (5 / 4)"
  "fdiv (Fin 2500) (Fin 2) = Fin 1250" "fdiv (Fin 10240) (Fin 0) = PInf"
  "fdiv PInf (Fin 2) = PInf" "fdiv (Fin (5 / 2)) NaN = NaN"
  by code_simp+

lemma fmul_facts:
  "fmul (Fin 2048) (Fin 5) = Fin 10240" "fmul (Fin (5 / 2)) (Fin 1) = Fin (5 / 2)"
  "fmul (Fin (5 / 2)) (Fin 1000) = Fin 2500" "fmul PInf (Fin 1) = PInf"
  "fmul (Fin 0) (Fin (1 / 2048)) = Fin 0" "fmul (Fin 0) (Fin (1 / 2)) = Fin 0"
  "fmul (Fin 1) (Fin (1 / 2)) = Fin (1 / 2)"
  "fmul (Fin 0) (Fin (3602879701896397 / 36028797018963968)) = Fin 0"
  "fmul (Fin 1) (Fin (3602879701896397 / 36028797018963968)) =
     Fin (3602879701896397 / 36028797018963968)"
  "fmul (Fin 2) (Fin (3602879701896397 / 36028797018963968)) =
     Fin (3602879701896397 / 18014398509481984)"
  "fmul (Fin 3) (Fin (3602879701896397 / 36028797018963968)) =
     Fin (1351079888211149 / 4503599627370496)"
  "fmul (Fin 0) (Fin (- (3602879701896397 / 36028797018963968))) = NZero"
  "fmul (Fin 1) (Fin (- (3602879701896397 / 36028797018963968))) =
     Fin (- (3602879701896397 / 36028797018963968))"
  "fmul (Fin 2) (Fin (- (3602879701896397 / 36028797018963968))) =
     Fin (- (3602879701896397 / 18014398509481984))"
  "fmul (Fin 3) (Fin (- (3602879701896397 / 36028797018963968))) =
     Fin (- (1351079888211149 / 4503599627370496))"
  by code_simp+

lemmas float_facts =
  dec_float_facts fl_of_int_0 fl_of_int_5 fl_of_int_facts fdiv_facts fmul_facts

lemmas eval_defs =
  otread_def convert_def metadata_def open_signals_def coerce_def decode_def reshape_def
  rows_of_def select_columns_def column_stack_def time_column_def calib_value_def
  pow2_int64_def unit_factor_def timestep_of_def append_signal_def empty_headers_def
  init_state_def find_elem_def field_text_def path_join_def yaml_path_def csv_path_def
  exists_def tar_extract_def astype_float_def is_zero_def float_facts
  dec_lib_def dec_int_def dec_int64_def leaf_def signal_node_def filters_def
  layout_def mk_archive_def mk_fs_def Let_def

lemma convert_ar_cal:
  "convert dec_lib ar_cal = Inr (Some (doc_cal, [[Fin (5 / 4), Fin 0]]))"
  by (simp add: eval_defs ar_cal_def doc_cal_def)

lemma tar_extract_mk_fs: "tar_extract (mk_fs a) (path_join ''/d'' ''rec.otb+'') = Inr a"
  by (simp add: tar_extract_def mk_fs_def path_join_def)

lemma mk_fs_fresh:
  "\<not> exists (mk_fs a) (yaml_path ''/d'' ''rec.otb+'')"
  "\<not> exists (mk_fs a) (csv_path ''/d'' ''rec.otb+'')"
  by (simp_all add: exists_def mk_fs_def path_join_def yaml_path_def csv_path_def)

lemma sample_paths:
  "yaml_path ''/d'' ''rec.otb+'' = ''/d/rec.yaml''"
  "csv_path ''/d'' ''rec.otb+'' = ''/d/rec.csv''"
  by (simp_all add: path_join_def yaml_path_def csv_path_def)

lemma otread_mk_fs:
  "otread L (mk_fs a) ''/d'' ''rec.otb+'' =
     (case convert L a of
        Inl e \<Rightarrow> (Inl e, mk_fs a)
      | Inr None \<Rightarrow> (Inr (), mk_fs a)
      | Inr (Some (H, data)) \<Rightarrow>
          (Inr (), (mk_fs a)(''/d/rec.yaml'' \<mapsto> Yaml H, ''/d/rec.csv'' \<mapsto> Csv data)))"
  by (simp add: otread_run [OF mk_fs_fresh tar_extract_mk_fs] sample_paths
           split: sum.splits option.splits)

lemma otread_ar_cal:
  "otread dec_lib (mk_fs ar_cal) ''/d'' ''rec.otb+'' =
     (Inr (), (mk_fs ar_cal)(''/d/rec.yaml'' \<mapsto> Yaml doc_cal,
                             ''/d/rec.csv'' \<mapsto> Csv [[Fin (5 / 4), Fin 0]]))"
  by (simp add: otread_mk_fs convert_ar_cal)

lemma convert_ar_bits64:
  "convert dec_lib ar_bits64 = Inr (Some (doc_bits64, [[PInf, Fin 0]]))"
  by (simp add: eval_defs ar_bits64_def doc_bits64_def doc_cal_def)



lemma convert_ar_ten: "convert dec_lib ar_ten = Inr (Some (doc_ten, table_ten))"
  by (simp add: eval_defs ar_ten_def doc_ten_def doc_cal_def table_ten_def)

lemma convert_ar_neg10: "convert dec_lib ar_neg10 = Inr (Some (doc_neg10, table_neg10))"
  by (simp add: eval_defs ar_neg10_def doc_neg10_def doc_cal_def table_neg10_def)

lemma convert_ar_two_1000:
  "convert dec_lib (ar_two ''1000'') = Inr (Some (doc_two 1000, table_two))"
  by (simp add: eval_defs ar_two_def doc_two_def table_two_def)

lemma convert_ar_two_2:
  "convert dec_lib (ar_two ''2'') = Inr (Some (doc_two 2, table_two))"
  by (simp add: eval_defs ar_two_def doc_two_def table_two_def)

lemma convert_ar_negT: "convert dec_lib ar_negT = Inl DecodeShapeMismatch"
  by (simp add: eval_defs ar_negT_def)

lemma metadata_ar_odd:
  "metadata dec_lib ar_odd = Inr (Some (doc_cal, 2, [0, 8, 0, 8, 0, 8], Fin (1 / 2048), 1))"
  by (simp add: eval_defs ar_odd_def doc_cal_def)

lemma convert_ar_nopath: "convert dec_lib ar_nopath = Inr None"
  by (simp add: eval_defs ar_nopath_def)

lemma convert_ar_nogain:
  "convert dec_lib ar_nogain = Inr (Some (doc_nogain, [[NaN, Fin 0]]))"
  by (simp add: eval_defs ar_nogain_def doc_nogain_def doc_cal_def float_item_def)

lemmas sample_defs = signals_def channels_def is_selected_def has_plugin_def

section \<open>Reading the metadata\<close>

text \<open>
  C1 (amended). Take an archive whose output files do not exist yet and whose signal nodes
  all have a plugin child. If no signal is selected, \<open>otread\<close> raises an error (the
  UnboundLocalError of line 73) and writes nothing. If the first selected signal has a
  usable sampling rate but lacks the signal_path or the track_totalnumber child, the guard of
  line 73 skips the decoding and \<open>otread\<close> returns normally, without any error; it
  writes nothing.
\<close>

theorem malformed_archive:
  assumes "\<not> exists f (yaml_path d n)" and "\<not> exists f (csv_path d n)"
    and "tar_extract f (path_join d n) = Inr a" and "form_dock a = Some r"
    and "\<forall>s \<in> set (signals a). has_plugin s"
  shows "(channels a = [] \<longrightarrow> otread L f d n = (Inl UnboundLocalError, f)) \<and>
         (\<forall>c cs ts. channels a = c # cs \<and> timestep_of L (field_text ''fsample'' c) = Inr ts \<and>
            (find_elem ''signal_path'' c = None \<or> find_elem ''track_totalnumber'' c = None) \<longrightarrow>
            otread L f d n = (Inr (), f))"
proof (intro conjI impI allI)
  assume "channels a = []"
  with assms(4,5) have "metadata L a = Inl UnboundLocalError" by (intro metadata_no_channel)
  then have "convert L a = Inl UnboundLocalError" by (rule convert_error_metadata)
  with assms(1-3) show "otread L f d n = (Inl UnboundLocalError, f)"
    by (intro otread_convert_error)
next
  fix c cs ts
  assume h: "channels a = c # cs \<and> timestep_of L (field_text ''fsample'' c) = Inr ts \<and>
            (find_elem ''signal_path'' c = None \<or> find_elem ''track_totalnumber'' c = None)"
  then have chs: "channels a = c # cs" by simp
  from h metadata_first [OF assms(4,5) chs, of L] have "metadata L a = Inr None"
    by (auto split: option.splits)
  then have "convert L a = Inr None" by (rule convert_None)
  with assms(1-3) show "otread L f d n = (Inr (), f)"
    by (intro otread_convert_None)
qed

theorem malformed_archive_witness:
  "otread dec_lib (mk_fs ar_none) ''/d'' ''rec.otb+'' = (Inl UnboundLocalError, mk_fs ar_none) \<and>
   otread dec_lib (mk_fs ar_nototal) ''/d'' ''rec.otb+'' = (Inr (), mk_fs ar_nototal)"
proof -
  have p1: "\<forall>s \<in> set (signals ar_none). has_plugin s"
    by (simp add: sample_defs eval_defs ar_none_def)
  have f1: "form_dock ar_none = Some (Element ''root'' None
     [signal_node ''LoaderProcessing'' ''0'' ''V'' ''2048'' ''12'' ''2'' (filters @ layout ''1'')])"
    by (simp add: ar_none_def mk_archive_def)
  have c1: "channels ar_none = []"
    by (simp add: sample_defs eval_defs ar_none_def)
  from malformed_archive [OF mk_fs_fresh tar_extract_mk_fs f1 p1, of dec_lib, THEN conjunct1] c1
  have r1: "otread dec_lib (mk_fs ar_none) ''/d'' ''rec.otb+'' = (Inl UnboundLocalError, mk_fs ar_none)"
    by (rule mp)
  let ?c = "signal_node ''LoaderOTComm'' ''0'' ''V'' ''2048'' ''12'' ''2''
        (filters @ [leaf ''signal_path'' ''a.sig''])"
  have p2: "\<forall>s \<in> set (signals ar_nototal). has_plugin s"
    by (simp add: sample_defs eval_defs ar_nototal_def)
  have f2: "form_dock ar_nototal = Some (Element ''root'' None [?c])"
    by (simp add: ar_nototal_def mk_archive_def)
  have c2: "channels ar_nototal = ?c # [] \<and>
      timestep_of dec_lib (field_text ''fsample'' ?c) = Inr (Fin (1 / 2048)) \<and>
      (find_elem ''signal_path'' ?c = None \<or> find_elem ''track_totalnumber'' ?c = None)"
    by (simp add: sample_defs eval_defs ar_nototal_def)
  from malformed_archive [OF mk_fs_fresh tar_extract_mk_fs f2 p2, of dec_lib, THEN conjunct2] c2
  have r2: "otread dec_lib (mk_fs ar_nototal) ''/d'' ''rec.otb+'' = (Inr (), mk_fs ar_nototal)"
    by blast
  from r1 r2 show ?thesis by (rule conjI)
qed

text \<open>
  The claim as stated fails for an archive whose selected signal has no signal_path: the
  run returns normally instead of raising.
\<close>

theorem malformed_archive_counterexample:
  "otread dec_lib (mk_fs ar_nopath) ''/d'' ''rec.otb+'' = (Inr (), mk_fs ar_nopath)"
  by (simp add: otread_mk_fs convert_ar_nopath)

section \<open>Numeric coercion\<close>

text \<open>
  C2 (amended). Take an archive whose output files do not exist yet, whose signal nodes all
  have a plugin child and whose first selected signal has the signal_path and
  track_totalnumber children. If the sampling rate of the first selected signal is absent
  or is not a number, line 70 raises (TypeError or ValueError). Otherwise, if for some
  selected channel track_index or ad_bits is absent or not an integer, or fsample,
  signal_gain, low_pass_filter or high_pass_filter holds text that is not a number, line 79
  raises FieldCoercionError before the sample file is opened. In each case nothing is
  written. An absent fsample (of a later channel), signal_gain, low_pass_filter or
  high_pass_filter is not an error: \<open>np.array(\<dots>, dtype=float)\<close> stores it as NaN, and
  a run that succeeds exports NaN in its place.
\<close>

theorem numeric_coercion:
  assumes "\<not> exists f (yaml_path d n)" and "\<not> exists f (csv_path d n)"
    and "tar_extract f (path_join d n) = Inr a" and "form_dock a = Some r"
    and "\<forall>s \<in> set (signals a). has_plugin s" and "channels a = c # cs"
    and "find_elem ''signal_path'' c = Some sp" and "find_elem ''track_totalnumber'' c = Some tt"
  shows "(field_text ''fsample'' c = None \<longrightarrow> otread L f d n = (Inl TypeError, f)) \<and>
         (\<forall>x. field_text ''fsample'' c = Some x \<and> py_float L x = None \<longrightarrow>
            otread L f d n = (Inl ValueError, f)) \<and>
         (\<forall>ts. timestep_of L (field_text ''fsample'' c) = Inr ts \<and>
            (\<exists>c' \<in> set (c # cs). coercion_fails L c') \<longrightarrow>
            otread L f d n = (Inl FieldCoercionError, f)) \<and>
         (\<forall>H out k. convert L a = Inr (Some (H, out)) \<and> k < length (c # cs) \<longrightarrow>
            (field_text ''fsample'' ((c # cs) ! k) = None \<longrightarrow> fsample_arr H ! k = NaN) \<and>
            (field_text ''signal_gain'' ((c # cs) ! k) = None \<longrightarrow> signal_gain_arr H ! k = NaN) \<and>
            (field_text ''low_pass_filter'' ((c # cs) ! k) = None \<longrightarrow>
               low_pass_filter_arr H ! k = NaN) \<and>
            (field_text ''high_pass_filter'' ((c # cs) ! k) = None \<longrightarrow>
               high_pass_filter_arr H ! k = NaN))"
proof (intro conjI impI allI)
  note m = metadata_first [OF assms(4,5,6), of L]
  {
    assume "field_text ''fsample'' c = None"
    with m have "metadata L a = Inl TypeError" by (simp add: timestep_of_def)
    then have "convert L a = Inl TypeError" by (rule convert_error_metadata)
    with assms(1-3) show "otread L f d n = (Inl TypeError, f)"
      by (intro otread_convert_error)
  }
  {
    fix x assume "field_text ''fsample'' c = Some x \<and> py_float L x = None"
    with m have "metadata L a = Inl ValueError" by (simp add: timestep_of_def)
    then have "convert L a = Inl ValueError" by (rule convert_error_metadata)
    with assms(1-3) show "otread L f d n = (Inl ValueError, f)"
      by (intro otread_convert_error)
  }
  {
    fix ts assume h: "timestep_of L (field_text ''fsample'' c) = Inr ts \<and>
            (\<exists>c' \<in> set (c # cs). coercion_fails L c')"
    then have "coerce L (collect (c # cs)) = Inl FieldCoercionError"
      by (simp only: coerce_collect_Inl)
    with h m assms(7,8) have "metadata L a = Inl FieldCoercionError"
      by (simp add: open_signals_def)
    then have "convert L a = Inl FieldCoercionError" by (rule convert_error_metadata)
    with assms(1-3) show "otread L f d n = (Inl FieldCoercionError, f)"
      by (intro otread_convert_error)
  }
  fix H out k
  assume h: "convert L a = Inr (Some (H, out)) \<and> k < length (c # cs)"
  then have c: "convert L a = Inr (Some (H, out))" and k: "k < length (c # cs)" by simp_all
  from convert_Some [OF c] obtain T bytes ts m' where
    "metadata L a = Inr (Some (H, T, bytes, ts, m'))" by blast
  from metadata_Some [OF this] assms(6) have co: "coerce L (collect (c # cs)) = Inr H"
    by auto
  note cc = coerce_collect_Inr [OF co]
  {
    assume "field_text ''fsample'' ((c # cs) ! k) = None"
    with cc(7) k show "fsample_arr H ! k = NaN" by (auto simp: float_item_def)
  }
  {
    assume "field_text ''signal_gain'' ((c # cs) ! k) = None"
    with cc(8) k show "signal_gain_arr H ! k = NaN" by (auto simp: float_item_def)
  }
  {
    assume "field_text ''low_pass_filter'' ((c # cs) ! k) = None"
    with cc(9) k show "low_pass_filter_arr H ! k = NaN" by (auto simp: float_item_def)
  }
  {
    assume "field_text ''high_pass_filter'' ((c # cs) ! k) = None"
    with cc(10) k show "high_pass_filter_arr H ! k = NaN" by (auto simp: float_item_def)
  }
qed

theorem numeric_coercion_witness:
  "otread dec_lib (mk_fs ar_badbits) ''/d'' ''rec.otb+'' = (Inl FieldCoercionError, mk_fs ar_badbits) \<and>
   signal_gain_arr doc_nogain ! 0 = NaN"
proof -
  let ?c = "signal_node ''LoaderOTComm'' ''0'' ''V'' ''2048'' ''twelve'' ''2'' (filters @ layout ''1'')"
  have p1: "\<forall>s \<in> set (signals ar_badbits). has_plugin s"
    by (simp add: sample_defs eval_defs ar_badbits_def)
  have f1: "form_dock ar_badbits = Some (Element ''root'' None [?c])"
    by (simp add: ar_badbits_def mk_archive_def)
  have c1: "channels ar_badbits = ?c # []"
    by (simp add: sample_defs eval_defs ar_badbits_def)
  have sp1: "find_elem ''signal_path'' ?c = Some (leaf ''signal_path'' ''a.sig'')"
    by (simp add: eval_defs)
  have tt1: "find_elem ''track_totalnumber'' ?c = Some (leaf ''track_totalnumber'' ''1'')"
    by (simp add: eval_defs)
  have h1: "timestep_of dec_lib (field_text ''fsample'' ?c) = Inr (Fin (1 / 2048)) \<and>
      (\<exists>c' \<in> set (?c # []). coercion_fails dec_lib c')"
    by (simp add: eval_defs coercion_fails_def int_rejected_def float_rejected_def)
  note t1 = numeric_coercion [OF mk_fs_fresh tar_extract_mk_fs f1 p1 c1 sp1 tt1, of dec_lib]
  from t1 [THEN conjunct2, THEN conjunct2, THEN conjunct1] h1
  have r1: "otread dec_lib (mk_fs ar_badbits) ''/d'' ''rec.otb+'' =
              (Inl FieldCoercionError, mk_fs ar_badbits)"
    by blast
  let ?g = "Element ''signal'' None
        ([leaf ''plugin'' ''LoaderOTComm'', leaf ''track_index'' ''0'', leaf ''description'' ''EMG'',
          leaf ''unity_of_measurement'' ''V'', leaf ''fsample'' ''2048'', leaf ''ad_bits'' ''12'']
         @ filters @ layout ''1'')"
  have p2: "\<forall>s \<in> set (signals ar_nogain). has_plugin s"
    by (simp add: sample_defs eval_defs ar_nogain_def)
  have f2: "form_dock ar_nogain = Some (Element ''root'' None [?g])"
    by (simp add: ar_nogain_def mk_archive_def)
  have c2: "channels ar_nogain = ?g # []"
    by (simp add: sample_defs eval_defs ar_nogain_def)
  have sp2: "find_elem ''signal_path'' ?g = Some (leaf ''signal_path'' ''a.sig'')"
    by (simp add: eval_defs)
  have tt2: "find_elem ''track_totalnumber'' ?g = Some (leaf ''track_totalnumber'' ''1'')"
    by (simp add: eval_defs)
  have h2: "convert dec_lib ar_nogain = Inr (Some (doc_nogain, [[NaN, Fin 0]])) \<and>
      0 < length (?g # [])"
    by (simp add: convert_ar_nogain)
  have g2: "field_text ''signal_gain'' ((?g # []) ! 0) = None"
    by (simp add: eval_defs)
  note t2 = numeric_coercion [OF mk_fs_fresh tar_extract_mk_fs f2 p2 c2 sp2 tt2, of dec_lib]
  from t2 [THEN conjunct2, THEN conjunct2, THEN conjunct2] h2 g2
  have r2: "signal_gain_arr doc_nogain ! 0 = NaN"
    by blast
  from r1 r2 show ?thesis by (rule conjI)
qed

text \<open>
  The claim as stated fails for a channel without signal_gain: the run succeeds, the header
  document holds NaN as the gain and the calibrated sample is NaN.
\<close>

theorem numeric_coercion_counterexample:
  "otread dec_lib (mk_fs ar_nogain) ''/d'' ''rec.otb+'' =
     (Inr (), (mk_fs ar_nogain)(''/d/rec.yaml'' \<mapsto> Yaml doc_nogain,
                                ''/d/rec.csv'' \<mapsto> Csv [[NaN, Fin 0]]))"
  by (simp add: otread_mk_fs convert_ar_nogain)

section \<open>Calibration\<close>

text \<open>
  C3. Line 105 computes \<open>2 ** ad_bits[n]\<close> on an entry of an int64 array, so the power is
  taken in signed 64-bit integers: for a resolution of 64 bits it is 0. For one acquired
  channel in volts with the raw value 2048, a gain of 2 and ad_bits 64 the run succeeds and
  exports infinity, where the formula \<open>raw * power_supply / 2^ad_bits * factor / gain\<close>,
  evaluated from left to right in float64 with the power \<open>2^64\<close>, gives \<open>5 / 2^54\<close>. With
  ad_bits 12 the same archive exports 1.25.
\<close>

theorem calibrated_value_overflow:
  "pow2_int64 64 = Inr 0 \<and>
   otread dec_lib (mk_fs ar_bits64) ''/d'' ''rec.otb+'' =
     (Inr (), (mk_fs ar_bits64)(''/d/rec.yaml'' \<mapsto> Yaml doc_bits64,
                                ''/d/rec.csv'' \<mapsto> Csv [[PInf, Fin 0]])) \<and>
   fdiv (fmul (fdiv (fmul (astype_float 2048) (Fin 5)) (Fin (2 ^ 64))) (fl_of_int 1)) (Fin 2) =
     Fin (5 / 2 ^ 54) \<and>
   otread dec_lib (mk_fs ar_cal) ''/d'' ''rec.otb+'' =
     (Inr (), (mk_fs ar_cal)(''/d/rec.yaml'' \<mapsto> Yaml doc_cal,
                             ''/d/rec.csv'' \<mapsto> Csv [[Fin (5 / 4), Fin 0]]))"
proof (intro conjI)
  show "pow2_int64 64 = Inr 0" by (simp add: pow2_int64_def)
  show "otread dec_lib (mk_fs ar_bits64) ''/d'' ''rec.otb+'' =
     (Inr (), (mk_fs ar_bits64)(''/d/rec.yaml'' \<mapsto> Yaml doc_bits64,
                                ''/d/rec.csv'' \<mapsto> Csv [[PInf, Fin 0]]))"
    by (simp add: otread_mk_fs convert_ar_bits64)
  show "fdiv (fmul (fdiv (fmul (astype_float 2048) (Fin 5)) (Fin (2 ^ 64))) (fl_of_int 1)) (Fin 2) =
     Fin (5 / 2 ^ 54)"
    by code_simp
  show "otread dec_lib (mk_fs ar_cal) ''/d'' ''rec.otb+'' =
     (Inr (), (mk_fs ar_cal)(''/d/rec.yaml'' \<mapsto> Yaml doc_cal,
                             ''/d/rec.csv'' \<mapsto> Csv [[Fin (5 / 4), Fin 0]]))"
    by (rule otread_ar_cal)
qed

section \<open>The unit of measurement\<close>




section \<open>The time column\<close>

text \<open>
  C5 (amended). When a run succeeds and writes the table \<open>out\<close>, then \<open>out\<close> is a
  matrix \<open>cal\<close> with one column per selected channel, to which a time column of the same
  number of rows is appended as the last column. Its entry \<open>i\<close> is the float64 product
  \<open>i * (1 / fsample)\<close>, where \<open>fsample\<close> is the sampling rate of the first selected signal,
  is not zero, and \<open>1 / fsample\<close> is the rounded float64 quotient. Nothing more is true in
  general: the product need not be the float64 nearest to \<open>i / fsample\<close>, and the column need
  not increase.
\<close>

theorem time_column_values:
  assumes "otread L f d n = (Inr (), f')" and "f' (csv_path d n) = Some (Csv out)"
  shows "\<exists>a c cs x v cal time.
           tar_extract f (path_join d n) = Inr a \<and> channels a = c # cs \<and>
           field_text ''fsample'' c = Some x \<and> py_float L x = Some v \<and> \<not> is_zero v \<and>
           out = column_stack cal time \<and> length time = length cal \<and>
           (\<forall>r < length cal. length (cal ! r) = length (c # cs) \<and> out ! r = cal ! r @ [time ! r]) \<and>
           (\<forall>i < length cal. time ! i = fmul (fl_of_int (int i)) (fdiv (Fin 1) v))"
proof -
  from otread_csv [OF assms] obtain a H where a: "tar_extract f (path_join d n) = Inr a"
    and c: "convert L a = Inr (Some (H, out))" by blast
  from convert_time [OF c] obtain c cs ts cal where
      chs: "channels a = c # cs" and ts: "timestep_of L (field_text ''fsample'' c) = Inr ts"
    and rl: "\<forall>r < length cal. length (cal ! r) = length (c # cs)"
    and out: "out = column_stack cal (time_column (length cal) ts)"
    by blast
  from ts obtain x v where x: "field_text ''fsample'' c = Some x" and v: "py_float L x = Some v"
    and v0: "\<not> is_zero v" and tsv: "ts = fdiv (Fin 1) v"
    by (auto simp: timestep_of_Inr)
  let ?time = "time_column (length cal) ts"
  have nth: "\<forall>i < length cal. ?time ! i = fmul (fl_of_int (int i)) (fdiv (Fin 1) v)"
    by (simp add: time_column_nth tsv)
  have len: "length ?time = length cal" by (simp add: length_time_column)
  have rows: "\<forall>r < length cal. length (cal ! r) = length (c # cs) \<and> out ! r = cal ! r @ [?time ! r]"
    using rl by (simp add: out column_stack_nth)
  from a chs x v v0 out len rows nth show ?thesis by blast
qed

theorem time_column_values_witness:
  "\<exists>a c cs x v cal time.
     tar_extract (mk_fs (ar_two ''2'')) (path_join ''/d'' ''rec.otb+'') = Inr a \<and>
     channels a = c # cs \<and>
     field_text ''fsample'' c = Some x \<and> py_float dec_lib x = Some v \<and> \<not> is_zero v \<and>
     table_two = column_stack cal time \<and> length time = length cal \<and>
     (\<forall>r < length cal. length (cal ! r) = length (c # cs) \<and> table_two ! r = cal ! r @ [time ! r]) \<and>
     (\<forall>i < length cal. time ! i = fmul (fl_of_int (int i)) (fdiv (Fin 1) v))"
proof -
  let ?g1 = "(mk_fs (ar_two ''2''))(''/d/rec.yaml'' \<mapsto> Yaml (doc_two 2),
                                     ''/d/rec.csv'' \<mapsto> Csv table_two)"
  have r2: "otread dec_lib (mk_fs (ar_two ''2'')) ''/d'' ''rec.otb+'' = (Inr (), ?g1)"
    by (simp add: otread_mk_fs convert_ar_two_2)
  have c2: "?g1 (csv_path ''/d'' ''rec.otb+'') = Some (Csv table_two)"
    by (simp add: sample_paths)
  show ?thesis by (rule time_column_values [OF r2 c2])
qed

text \<open>
  The claim as stated fails for a sampling rate of 10: the run succeeds and the entry 3 of
  the time column is the float64 above \<open>3 / 10\<close>, which has the decimal form
  0.30000000000000004, and not the float64 nearest to \<open>3 / 10\<close>. It fails for a sampling rate
  of -10 as well: the run succeeds and the time column decreases.
\<close>

theorem time_column_values_counterexample:
  "otread dec_lib (mk_fs ar_ten) ''/d'' ''rec.otb+'' =
     (Inr (), (mk_fs ar_ten)(''/d/rec.yaml'' \<mapsto> Yaml doc_ten, ''/d/rec.csv'' \<mapsto> Csv table_ten)) \<and>
   table_ten ! 3 ! 1 = Fin (1351079888211149 / 4503599627370496) \<and>
   fdiv (fl_of_int 3) (Fin 10) = Fin (5404319552844595 / 18014398509481984) \<and>
   table_ten ! 3 ! 1 \<noteq> fdiv (fl_of_int 3) (Fin 10) \<and>
   otread dec_lib (mk_fs ar_neg10) ''/d'' ''rec.otb+'' =
     (Inr (), (mk_fs ar_neg10)(''/d/rec.yaml'' \<mapsto> Yaml doc_neg10,
                               ''/d/rec.csv'' \<mapsto> Csv table_neg10)) \<and>
   \<not> fless (table_neg10 ! 1 ! 1) (table_neg10 ! 2 ! 1)"
proof -
  have q: "fdiv (fl_of_int 3) (Fin 10) = Fin (5404319552844595 / 18014398509481984)"
    by code_simp
  have e: "table_ten ! 3 ! 1 = Fin (1351079888211149 / 4503599627370496)"
    by (simp add: table_ten_def)
  have ne: "table_ten ! 3 ! 1 \<noteq> fdiv (fl_of_int 3) (Fin 10)"
    unfolding q e by simp
  have d: "\<not> fless (table_neg10 ! 1 ! 1) (table_neg10 ! 2 ! 1)"
    by (simp add: table_neg10_def)
  have r1: "otread dec_lib (mk_fs ar_ten) ''/d'' ''rec.otb+'' =
     (Inr (), (mk_fs ar_ten)(''/d/rec.yaml'' \<mapsto> Yaml doc_ten, ''/d/rec.csv'' \<mapsto> Csv table_ten))"
    by (simp add: otread_mk_fs convert_ar_ten)
  have r2: "otread dec_lib (mk_fs ar_neg10) ''/d'' ''rec.otb+'' =
     (Inr (), (mk_fs ar_neg10)(''/d/rec.yaml'' \<mapsto> Yaml doc_neg10,
                               ''/d/rec.csv'' \<mapsto> Csv table_neg10))"
    by (simp add: otread_mk_fs convert_ar_neg10)
  from r1 e q ne r2 d show ?thesis by (intro conjI)
qed

section \<open>Decoding\<close>

text \<open>
  C6 (amended). A sample file with an even number of bytes is read as consecutive pairs of
  bytes, each pair a little-endian 16-bit integer that is widened to a float by its signed
  value; an odd number of bytes is rejected before the reshape. A successful reshape with
  \<open>track_totalnumber = T\<close> gives the row-major matrix with \<open>T\<close> columns: entry \<open>c\<close> of row
  \<open>r\<close> is sample \<open>r * T + c\<close>. If the number of samples is not a multiple of \<open>T\<close> the
  reshape raises DecodeShapeMismatch, and a run that gets as far as the decoding then raises
  it and leaves the file system unchanged. If \<open>T\<close> is positive, below \<open>2^60\<close> (a row of
  \<open>T\<close> float64 values must fit the signed 64-bit size of an array) and divides the number of
  samples, the reshape succeeds.
\<close>

theorem decode_shape_check:
  "(frombuffer bs = Inr ws \<longrightarrow>
      length bs = 2 * length ws \<and>
      (\<forall>i < length ws. ws ! i = ucast (bs ! (2 * i + 1)) * 256 + ucast (bs ! (2 * i)))) \<and>
   astype_float w = Fin (of_int (sint w)) \<and>
   (reshape xs T = Inr rows \<longrightarrow>
      0 < T \<and> length rows = length xs div nat T \<and>
      (\<forall>r < length rows. length (rows ! r) = nat T \<and>
         (\<forall>c < nat T. rows ! r ! c = xs ! (r * nat T + c)))) \<and>
   (int (length xs) mod T \<noteq> 0 \<longrightarrow> reshape xs T = Inl DecodeShapeMismatch) \<and>
   (\<not> exists f (yaml_path d n) \<and> \<not> exists f (csv_path d n) \<and>
    tar_extract f (path_join d n) = Inr a \<and>
    metadata L a = Inr (Some (H, T, bytes, ts, m)) \<and> frombuffer bytes = Inr ws \<and>
    int (length ws) mod T \<noteq> 0 \<longrightarrow>
      otread L f d n = (Inl DecodeShapeMismatch, f)) \<and>
   (0 < T \<and> T < 2 ^ 60 \<and> int (length xs) mod T = 0 \<longrightarrow>
      reshape xs T = Inr (rows_of (nat T) xs))"
proof (intro conjI impI)
  assume "frombuffer bs = Inr ws"
  from frombuffer_Inr [OF this]
  show "length bs = 2 * length ws"
    and "\<forall>i < length ws. ws ! i = ucast (bs ! (2 * i + 1)) * 256 + ucast (bs ! (2 * i))"
    by simp_all
next
  show "astype_float w = Fin (of_int (sint w))" by (rule astype_float_exact)
next
  assume r: "reshape xs T = Inr rows"
  then have T: "0 < T" and m: "int (length xs) mod T = 0" and rows: "rows = rows_of (nat T) xs"
    by (simp_all add: reshape_Inr)
  show "0 < T" by fact
  show "length rows = length xs div nat T" by (simp add: rows length_rows_of)
  show "\<forall>r < length rows. length (rows ! r) = nat T \<and>
         (\<forall>c < nat T. rows ! r ! c = xs ! (r * nat T + c))"
  proof (intro allI impI conjI)
    fix r assume "r < length rows"
    then have r: "r < length xs div nat T" by (simp add: rows length_rows_of)
    have n: "0 < nat T" using T by simp
    show "length (rows ! r) = nat T"
    proof (cases "nat T")
      case 0
      with n show ?thesis by simp
    next
      case (Suc k)
      have "0 < Suc k" by simp
      with rows_of_nth(1) [of "nat T" r xs 0] n r show ?thesis by (simp add: rows)
    qed
    fix c assume "c < nat T"
    with rows_of_nth(2) [OF n r] show "rows ! r ! c = xs ! (r * nat T + c)"
      by (simp add: rows)
  qed
next
  assume "int (length xs) mod T \<noteq> 0"
  then show "reshape xs T = Inl DecodeShapeMismatch" by (simp add: reshape_def)
next
  assume h: "\<not> exists f (yaml_path d n) \<and> \<not> exists f (csv_path d n) \<and>
    tar_extract f (path_join d n) = Inr a \<and>
    metadata L a = Inr (Some (H, T, bytes, ts, m)) \<and> frombuffer bytes = Inr ws \<and>
    int (length ws) mod T \<noteq> 0"
  then have "decode bytes T (track_index_arr H) = Inl DecodeShapeMismatch"
    by (simp add: decode_def reshape_def)
  with h have "convert L a = Inl DecodeShapeMismatch" by (simp add: convert_def)
  with h show "otread L f d n = (Inl DecodeShapeMismatch, f)"
    by (intro otread_convert_error) simp_all
next
  assume "0 < T \<and> T < 2 ^ 60 \<and> int (length xs) mod T = 0"
  then show "reshape xs T = Inr (rows_of (nat T) xs)" by (simp add: reshape_def)
qed

theorem decode_shape_check_witness:
  "otread dec_lib (mk_fs ar_odd) ''/d'' ''rec.otb+'' = (Inl DecodeShapeMismatch, mk_fs ar_odd) \<and>
   reshape [1, 2, 3, 4, 5, 6 :: int] 3 = Inr [[1, 2, 3], [4, 5, 6]]"
proof -
  have fb: "frombuffer [0, 8, 0, 8, 0, 8] = Inr [2048, 2048, 2048]" by simp
  have nd: "int (length [2048, 2048, 2048 :: 16 word]) mod 2 \<noteq> 0" by simp
  note t = decode_shape_check [where f = "mk_fs ar_odd" and d = "''/d''" and n = "''rec.otb+''"
      and a = ar_odd and L = dec_lib and H = doc_cal and T = 2 and bytes = "[0, 8, 0, 8, 0, 8]"
      and ts = "Fin (1 / 2048)" and m = 1 and ws = "[2048, 2048, 2048]"]
  have h5: "\<not> exists (mk_fs ar_odd) (yaml_path ''/d'' ''rec.otb+'') \<and>
      \<not> exists (mk_fs ar_odd) (csv_path ''/d'' ''rec.otb+'') \<and>
      tar_extract (mk_fs ar_odd) (path_join ''/d'' ''rec.otb+'') = Inr ar_odd \<and>
      metadata dec_lib ar_odd = Inr (Some (doc_cal, 2, [0, 8, 0, 8, 0, 8], Fin (1 / 2048), 1)) \<and>
      frombuffer [0, 8, 0, 8, 0, 8] = Inr [2048, 2048, 2048] \<and>
      int (length [2048, 2048, 2048 :: 16 word]) mod 2 \<noteq> 0"
    using mk_fs_fresh [of ar_odd] tar_extract_mk_fs [of ar_odd] metadata_ar_odd fb nd
    by (intro conjI)
  from t [THEN conjunct2, THEN conjunct2, THEN conjunct2, THEN conjunct2, THEN conjunct1] h5
  have run: "otread dec_lib (mk_fs ar_odd) ''/d'' ''rec.otb+'' = (Inl DecodeShapeMismatch, mk_fs ar_odd)"
    by (rule mp)
  have h6: "(0 :: int) < 3 \<and> (3 :: int) < 2 ^ 60 \<and> int (length [1, 2, 3, 4, 5, 6 :: int]) mod 3 = 0"
    by simp
  from decode_shape_check [where xs = "[1, 2, 3, 4, 5, 6 :: int]" and T = 3,
      THEN conjunct2, THEN conjunct2, THEN conjunct2, THEN conjunct2, THEN conjunct2] h6
  have "reshape [1, 2, 3, 4, 5, 6 :: int] 3 = Inr (rows_of (nat 3) [1, 2, 3, 4, 5, 6])"
    by (rule mp)
  moreover have "rows_of (nat 3) [1, 2, 3, 4, 5, 6 :: int] = [[1, 2, 3], [4, 5, 6]]"
    by code_simp
  ultimately have "reshape [1, 2, 3, 4, 5, 6 :: int] 3 = Inr [[1, 2, 3], [4, 5, 6]]"
    by (simp only:)
  with run show ?thesis by (rule conjI)
qed

text \<open>
  The claim as stated fails for a declared total number of tracks of -2: four samples are a
  multiple of -2, yet the reshape fails (numpy takes a second negative dimension for a second
  unknown one).
\<close>

theorem decode_shape_check_counterexample:
  "int (length [2048, 2048, 2048, 2048 :: 16 word]) mod (- 2) = 0 \<and>
   frombuffer [0, 8, 0, 8, 0, 8, 0, 8] = Inr [2048, 2048, 2048, 2048] \<and>
   reshape (map astype_float [2048, 2048, 2048, 2048]) (- 2) = Inl DecodeShapeMismatch \<and>
   otread dec_lib (mk_fs ar_negT) ''/d'' ''rec.otb+'' = (Inl DecodeShapeMismatch, mk_fs ar_negT)"
  by (simp add: otread_mk_fs convert_ar_negT reshape_def)

section \<open>The guard against overwriting (lines 30 to 34)\<close>

text \<open>
  C7. Whenever one of the two output files, whose paths are derived from the archive name,
  already exists, \<open>otread\<close> raises AlreadyProcessed at once and leaves the file system as
  it was. Hence a second run after a run that wrote its outputs finds both files, fails with
  AlreadyProcessed and leaves the outputs of the first run untouched.
\<close>

theorem already_processed:
  "(exists f (yaml_path d n) \<or> exists f (csv_path d n) \<longrightarrow>
      otread L f d n = (Inl AlreadyProcessed, f)) \<and>
   (otread L f d n = (Inr (), f1) \<and> f1 \<noteq> f \<longrightarrow>
      exists f1 (yaml_path d n) \<and> exists f1 (csv_path d n) \<and>
      otread L f1 d n = (Inl AlreadyProcessed, f1))"
proof (intro conjI impI)
  assume "exists f (yaml_path d n) \<or> exists f (csv_path d n)"
  then show "otread L f d n = (Inl AlreadyProcessed, f)" by (rule otread_guard)
next
  assume run: "otread L f d n = (Inr (), f1) \<and> f1 \<noteq> f"
  with otread_success [of L f d n "()" f1] obtain H data where
    f1: "f1 = (f(yaml_path d n \<mapsto> Yaml H))(csv_path d n \<mapsto> Csv data)"
    by blast
  show y: "exists f1 (yaml_path d n)" by (simp add: f1 exists_def)
  show "exists f1 (csv_path d n)" by (simp add: f1 exists_def)
  from y show "otread L f1 d n = (Inl AlreadyProcessed, f1)" by (simp add: otread_guard)
qed

theorem already_processed_witness:
  "otread dec_lib
     ((mk_fs ar_cal)(''/d/rec.yaml'' \<mapsto> Yaml doc_cal, ''/d/rec.csv'' \<mapsto> Csv [[Fin (5 / 4), Fin 0]]))
     ''/d'' ''rec.otb+'' =
   (Inl AlreadyProcessed,
    (mk_fs ar_cal)(''/d/rec.yaml'' \<mapsto> Yaml doc_cal, ''/d/rec.csv'' \<mapsto> Csv [[Fin (5 / 4), Fin 0]]))"
proof -
  let ?f1 = "(mk_fs ar_cal)(''/d/rec.yaml'' \<mapsto> Yaml doc_cal,
                            ''/d/rec.csv'' \<mapsto> Csv [[Fin (5 / 4), Fin 0]])"
  have "?f1 ''/d/rec.csv'' \<noteq> mk_fs ar_cal ''/d/rec.csv''"
    by (simp add: mk_fs_def)
  then have ne: "?f1 \<noteq> mk_fs ar_cal" by metis
  have "otread dec_lib (mk_fs ar_cal) ''/d'' ''rec.otb+'' = (Inr (), ?f1) \<and> ?f1 \<noteq> mk_fs ar_cal"
    using otread_ar_cal ne by (rule conjI)
  with already_processed [of "mk_fs ar_cal" "''/d''" "''rec.otb+''" dec_lib ?f1]
  show ?thesis by blast
qed

section \<open>Round trip of the decoder\<close>

text \<open>
  C8. A byte buffer that encodes a matrix with \<open>N\<close> rows and \<open>M\<close> columns of 16-bit
  values (at least three columns, so that columns 0 and 2 exist, and fewer than \<open>2^60\<close>,
  the most that a row of a float64 array can have) decodes, with \<open>track_totalnumber = M\<close> and the track indices 0 and 2, to the matrix
  with the same \<open>N\<close> rows whose two columns are columns 0 and 2 of the original, in that
  order. This holds for any sample values, an integer ramp among them.
\<close>

theorem decode_round_trip:
  assumes "\<forall>row \<in> set m. length row = M" and "3 \<le> M" and "int M < 2 ^ 60"
  shows "decode (tobytes m) (int M) [0, 2] =
           Inr (map (\<lambda>row. [astype_float (row ! 0), astype_float (row ! 2)]) m) \<and>
         length (map (\<lambda>row. [astype_float (row ! 0), astype_float (row ! 2)]) m) = length m"
proof -
  let ?F = "map (map astype_float) m"
  have rows: "\<forall>row \<in> set ?F. length row = M" using assms(1) by simp
  have "reshape (map astype_float (concat m)) (int M) = reshape (concat ?F) (int M)"
    by (simp add: map_concat)
  also have "\<dots> = Inr ?F"
    using rows assms by (intro reshape_concat) simp_all
  finally have r: "reshape (map astype_float (concat m)) (int M) = Inr ?F" .
  have i: "index_list (int M) [0, 2] = Inr [0, 2]"
    using assms(2) by (simp add: Let_def)
  have "select_columns ?F (int M) [0, 2] =
          Inr (map (\<lambda>row. [astype_float (row ! 0), astype_float (row ! 2)]) m)"
    using assms(1,2) by (simp add: select_columns_def i)
  then show ?thesis by (simp add: decode_def frombuffer_tobytes r)
qed

theorem decode_round_trip_witness:
  "decode (tobytes (ramp 2 3)) 3 [0, 2] = Inr [[Fin 0, Fin 2], [Fin 3, Fin 5]]"
proof -
  have rows: "\<forall>row \<in> set (ramp 2 3). length row = 3" by (simp add: ramp_def)
  have r: "ramp 2 3 = [[0, 1, 2], [3, 4, 5]]"
    by (simp add: ramp_def upt_rec numeral_eq_Suc)
  from decode_round_trip [OF rows] have
    "decode (tobytes (ramp 2 3)) (int 3) [0, 2] =
       Inr (map (\<lambda>row. [astype_float (row ! 0), astype_float (row ! 2)]) (ramp 2 3))"
    by simp
  then show ?thesis by (simp add: r astype_float_exact)
qed

text \<open>
  C9. The time step is computed once, from the sampling rate of the first selected signal
  (line 70), and the sampling rates of the other channels are never consulted for it. So for
  two archives that hold the same files and have the same first selected signal (they may
  differ in the sampling rates of the other selected channels, and elsewhere), two
  successful runs export the same time column.
\<close>

theorem time_column_first_channel:
  assumes "otread L f d n = (Inr (), f1)" and "f1 (csv_path d n) = Some (Csv out1)"
    and "otread L g e k = (Inr (), g1)" and "g1 (csv_path e k) = Some (Csv out2)"
    and "tar_extract f (path_join d n) = Inr a" and "tar_extract g (path_join e k) = Inr b"
    and "members a = members b" and "hd (channels a) = hd (channels b)"
  shows "map last out1 = map last out2"
proof -
  from otread_csv [OF assms(1,2)] assms(5) obtain H1 where
    c1: "convert L a = Inr (Some (H1, out1))" by auto
  from otread_csv [OF assms(3,4)] assms(6) obtain H2 where
    c2: "convert L b = Inr (Some (H2, out2))" by auto
  from convert_time [OF c1] obtain c cs tts path bytes T ts ws cal where
      a: "channels a = c # cs" "timestep_of L (field_text ''fsample'' c) = Inr ts"
         "field_text ''track_totalnumber'' c = Some tts" "py_int L tts = Some T"
         "field_text ''signal_path'' c = Some path" "members a path = Some bytes"
         "frombuffer bytes = Inr ws" "length cal = length ws div nat T"
         "out1 = column_stack cal (time_column (length cal) ts)"
    by blast
  from convert_time [OF c2] obtain c' cs' tts' path' bytes' T' ts' ws' cal' where
      b: "channels b = c' # cs'" "timestep_of L (field_text ''fsample'' c') = Inr ts'"
         "field_text ''track_totalnumber'' c' = Some tts'" "py_int L tts' = Some T'"
         "field_text ''signal_path'' c' = Some path'" "members b path' = Some bytes'"
         "frombuffer bytes' = Inr ws'" "length cal' = length ws' div nat T'"
         "out2 = column_stack cal' (time_column (length cal') ts')"
    by blast
  from assms(8) a(1) b(1) have cc: "c' = c" by simp
  from a(2) b(2) cc have ts: "ts' = ts" by simp
  from a(3,4) b(3,4) cc have T: "T' = T" by simp
  from a(5,6) b(5,6) cc assms(7) have "bytes' = bytes" by simp
  with a(7) b(7) have ws: "ws' = ws" by simp
  from a(8) b(8) T ws have len: "length cal' = length cal" by simp
  have "map last out1 = time_column (length cal) ts"
    unfolding a(9) by (rule map_last_column_stack) (simp add: length_time_column)
  moreover have "map last out2 = time_column (length cal') ts'"
    unfolding b(9) by (rule map_last_column_stack) (simp add: length_time_column)
  ultimately show ?thesis by (simp add: ts len)
qed

theorem time_column_first_channel_witness:
  "otread dec_lib (mk_fs (ar_two ''1000'')) ''/d'' ''rec.otb+'' =
     (Inr (), (mk_fs (ar_two ''1000''))(''/d/rec.yaml'' \<mapsto> Yaml (doc_two 1000),
                                        ''/d/rec.csv'' \<mapsto> Csv table_two)) \<and>
   otread dec_lib (mk_fs (ar_two ''2'')) ''/d'' ''rec.otb+'' =
     (Inr (), (mk_fs (ar_two ''2''))(''/d/rec.yaml'' \<mapsto> Yaml (doc_two 2),
                                     ''/d/rec.csv'' \<mapsto> Csv table_two)) \<and>
   doc_two 1000 \<noteq> doc_two 2 \<and>
   map last table_two = map last table_two"
proof -
  let ?f1 = "(mk_fs (ar_two ''1000''))(''/d/rec.yaml'' \<mapsto> Yaml (doc_two 1000),
                                        ''/d/rec.csv'' \<mapsto> Csv table_two)"
  let ?g1 = "(mk_fs (ar_two ''2''))(''/d/rec.yaml'' \<mapsto> Yaml (doc_two 2),
                                     ''/d/rec.csv'' \<mapsto> Csv table_two)"
  have r1: "otread dec_lib (mk_fs (ar_two ''1000'')) ''/d'' ''rec.otb+'' = (Inr (), ?f1)"
    by (simp add: otread_mk_fs convert_ar_two_1000)
  have r2: "otread dec_lib (mk_fs (ar_two ''2'')) ''/d'' ''rec.otb+'' = (Inr (), ?g1)"
    by (simp add: otread_mk_fs convert_ar_two_2)
  have c1: "?f1 (csv_path ''/d'' ''rec.otb+'') = Some (Csv table_two)"
    by (simp add: sample_paths)
  have c2: "?g1 (csv_path ''/d'' ''rec.otb+'') = Some (Csv table_two)"
    by (simp add: sample_paths)
  have m: "members (ar_two ''1000'') = members (ar_two ''2'')"
    by (simp add: ar_two_def mk_archive_def)
  have h: "hd (channels (ar_two ''1000'')) = hd (channels (ar_two ''2''))"
    by (simp add: channels_def signals_def is_selected_def eval_defs ar_two_def)
  have ne: "doc_two 1000 \<noteq> doc_two 2" by (simp add: doc_two_def)
  have t: "map last table_two = map last table_two"
    by (rule time_column_first_channel [OF r1 c1 r2 c2 tar_extract_mk_fs tar_extract_mk_fs m h])
  show ?thesis by (rule conjI [OF r1 conjI [OF r2 conjI [OF ne t]]])
qed

section \<open>Alignment of the header lists\<close>

text \<open>
  C10. After the header loop (started from the empty dictionary) every one of the nine lists
  has exactly \<open>n_signals\<close> entries, and \<open>n_signals\<close> is the number of selected signals.
  The same holds for the nine lists of the header document that a successful run writes:
  each has one entry per selected channel of the archive.
\<close>

theorem header_lists_aligned:
  "(read_headers L ss init_state = Inr st \<longrightarrow>
      n_signals st = length (filter is_selected ss) \<and>
      length (track_index (hdrs st)) = n_signals st \<and>
      length (description (hdrs st)) = n_signals st \<and>
      length (unity_of_measurement (hdrs st)) = n_signals st \<and>
      length (power_supply (hdrs st)) = n_signals st \<and>
      length (fsample (hdrs st)) = n_signals st \<and>
      length (ad_bits (hdrs st)) = n_signals st \<and>
      length (signal_gain (hdrs st)) = n_signals st \<and>
      length (low_pass_filter (hdrs st)) = n_signals st \<and>
      length (high_pass_filter (hdrs st)) = n_signals st) \<and>
   (otread L f d n = (Inr (), f') \<and> f' (yaml_path d n) = Some (Yaml H) \<longrightarrow>
      (\<exists>a. tar_extract f (path_join d n) = Inr a \<and>
         length (track_index_arr H) = length (channels a) \<and>
         length (description_arr H) = length (channels a) \<and>
         length (unity_of_measurement_arr H) = length (channels a) \<and>
         length (power_supply_arr H) = length (channels a) \<and>
         length (fsample_arr H) = length (channels a) \<and>
         length (ad_bits_arr H) = length (channels a) \<and>
         length (signal_gain_arr H) = length (channels a) \<and>
         length (low_pass_filter_arr H) = length (channels a) \<and>
         length (high_pass_filter_arr H) = length (channels a)))"
proof (intro conjI impI)
  assume "otread L f d n = (Inr (), f') \<and> f' (yaml_path d n) = Some (Yaml H)"
  then obtain a out where a: "tar_extract f (path_join d n) = Inr a"
    and c: "convert L a = Inr (Some (H, out))"
    using otread_yaml [of L f d n "()" f' H] by blast
  from convert_Some [OF c] obtain T bytes ts k where
    "metadata L a = Inr (Some (H, T, bytes, ts, k))" by blast
  from metadata_Some [OF this] obtain c cs where chs: "channels a = c # cs"
    and H: "coerce L (collect (c # cs)) = Inr H" by blast
  from coerce_collect_Inr(1) [OF H] a chs
  show "\<exists>a. tar_extract f (path_join d n) = Inr a \<and>
         length (track_index_arr H) = length (channels a) \<and>
         length (description_arr H) = length (channels a) \<and>
         length (unity_of_measurement_arr H) = length (channels a) \<and>
         length (power_supply_arr H) = length (channels a) \<and>
         length (fsample_arr H) = length (channels a) \<and>
         length (ad_bits_arr H) = length (channels a) \<and>
         length (signal_gain_arr H) = length (channels a) \<and>
         length (low_pass_filter_arr H) = length (channels a) \<and>
         length (high_pass_filter_arr H) = length (channels a)"
    by (intro exI [of _ a]) simp
qed (simp_all add: read_headers_init_Inr collect_eq)

theorem header_lists_aligned_witness:
  "(\<exists>st. read_headers dec_lib (signals ar_cal) init_state = Inr st \<and>
      n_signals st = length (filter is_selected (signals ar_cal)) \<and>
      length (track_index (hdrs st)) = n_signals st \<and>
      length (high_pass_filter (hdrs st)) = n_signals st) \<and>
   (\<exists>a. tar_extract (mk_fs ar_cal) (path_join ''/d'' ''rec.otb+'') = Inr a \<and>
      length (track_index_arr doc_cal) = length (channels a) \<and>
      length (high_pass_filter_arr doc_cal) = length (channels a))"
proof -
  obtain st where st: "read_headers dec_lib (signals ar_cal) init_state = Inr st"
    by (simp add: eval_defs ar_cal_def signals_def)
  let ?f1 = "(mk_fs ar_cal)(''/d/rec.yaml'' \<mapsto> Yaml doc_cal,
                            ''/d/rec.csv'' \<mapsto> Csv [[Fin (5 / 4), Fin 0]])"
  have y: "?f1 (yaml_path ''/d'' ''rec.otb+'') = Some (Yaml doc_cal)"
    by (simp add: yaml_path_def path_join_def)
  note t = header_lists_aligned [of dec_lib "signals ar_cal" st "mk_fs ar_cal" "''/d''"
      "''rec.otb+''" ?f1 doc_cal]
  from t st have "n_signals st = length (filter is_selected (signals ar_cal)) \<and>
      length (track_index (hdrs st)) = n_signals st \<and>
      length (high_pass_filter (hdrs st)) = n_signals st"
    by blast
  moreover from t otread_ar_cal y
  have "\<exists>a. tar_extract (mk_fs ar_cal) (path_join ''/d'' ''rec.otb+'') = Inr a \<and>
      length (track_index_arr doc_cal) = length (channels a) \<and>
      length (high_pass_filter_arr doc_cal) = length (channels a)"
    by blast
  ultimately show ?thesis using st by blast
qed

end
